theory Spec2Isabelle
  imports Main "HOL-Library.AList"
begin

section \<open>Python strings: \<open>str.split('.')\<close>, \<open>'.'.join\<close>, \<open>str.startswith\<close>\<close>

text \<open>
  \<open>s.split('.')\<close> cuts at every dot and keeps empty segments: \<open>''.split('.')\<close> is
  \<open>['']\<close>, \<open>'a.'.split('.')\<close> is \<open>['a', '']\<close>. The result is never the empty list, so
  \<open>hd\<close> and \<open>tl\<close> below are always applied to a non-empty list (lemma
  \<open>split_dot_not_Nil\<close>).
\<close>

fun split_dot :: "string \<Rightarrow> string list" where
  "split_dot [] = [[]]"
| "split_dot (c # cs) =
     (if c = CHR ''.'' then [] # split_dot cs
      else (c # hd (split_dot cs)) # tl (split_dot cs))"

fun join_dot :: "string list \<Rightarrow> string" where
  "join_dot [] = []"
| "join_dot [p] = p"
| "join_dot (p # q # ps) = p @ CHR ''.'' # join_dot (q # ps)"

definition startswith :: "string \<Rightarrow> string \<Rightarrow> bool" where
  "startswith n p = (take (length p) n = p)"

section \<open>Exceptions\<close>

text \<open>
  Every failure the loader raises itself is a \<open>ValueError\<close>; they differ in the message.
  The message is kept as its format and the arguments of \<open>%\<close>, in the order the source
  passes them (\<open>%r\<close> prints each argument quoted):
  \<^item> \<open>NotComply long_name form\<close>: \<open>'%r does not comply with: "form".'\<close>
  \<^item> \<open>NotInModules long_name mod_name\<close>:
    \<open>'Cannot exclude %r: %r not found in modules list.'\<close>
  \<^item> \<open>NotFoundIn long_name name owner\<close>: \<open>'Cannot exclude %r: %r not found in %r.'\<close>
  \<^item> \<open>BadGranularity\<close>: \<open>'Granularity must be in [module, class, method].'\<close>
  The other exceptions come from Python itself or from the libraries the loader calls.
\<close>

datatype message =
    NotComply string string
  | NotInModules string string
  | NotFoundIn string string string
  | BadGranularity

datatype error =
    ValueError message
  | KeyError string
  | ImportError string
  | AttributeError string
  | TypeError

section \<open>Splitting dotted names (\<open>_get_cls_name_parts\<close>, \<open>_get_mth_name_parts\<close>)\<close>

definition get_cls_name_parts :: "string \<Rightarrow> error + string \<times> string" where
  "get_cls_name_parts long_name =
     (case split_dot long_name of
        [p0, p1] \<Rightarrow> Inr (p0, p1)
      | _ \<Rightarrow> Inl (ValueError (NotComply long_name ''module.class'')))"

definition get_mth_name_parts :: "string \<Rightarrow> error + string \<times> string \<times> string" where
  "get_mth_name_parts long_name =
     (case split_dot long_name of
        [p0, p1, p2] \<Rightarrow> Inr (p0, p1, p2)
      | _ \<Rightarrow> Inl (ValueError (NotComply long_name ''module.class.method'')))"

section \<open>Python sets and dictionaries\<close>

text \<open>
  A Python \<open>dict\<close> is an association list with the keys in insertion order: \<open>d[k] = v\<close> is
  \<open>AList.update k v d\<close> (the value is replaced in place, a new key goes to the end),
  \<open>del d[k]\<close> is \<open>AList.delete k d\<close>, \<open>k in d\<close> and \<open>d[k]\<close> are read from
  \<open>map_of d k\<close>, and \<open>not d\<close> is \<open>d = []\<close>. A Python \<open>set\<close> of names is the list of its
  elements without repetition: \<open>s.add(x)\<close> is \<open>set_add x s\<close>, \<open>s.remove(x)\<close> of a member
  is \<open>removeAll x s\<close>. Python fixes no iteration order for a set: it follows the hashes
  of the elements, which change from one process to the next. Where the source builds
  \<open>set(xs)\<close> only to collect names (the targets of a group, the names of a suite), the
  model takes \<open>remdups xs\<close>, and the theorems speak about the elements and about how often
  each is produced. Where the order decides what a failing run raises and what it has
  changed by then (the loops over \<open>set(except_cls_names)\<close> and \<open>set(except_mth_names)\<close>),
  the order is a parameter \<open>set_iter\<close> of the model: \<open>set_iter xs\<close> is the order in which
  the running program iterates \<open>set(xs)\<close>. All that is known of it is \<open>enumerates\<close>: it
  lists the elements of \<open>xs\<close>, each once.
\<close>

type_synonym set_order = "string list \<Rightarrow> string list"

definition enumerates :: "set_order \<Rightarrow> bool" where
  "enumerates set_iter = (\<forall>xs. distinct (set_iter xs) \<and> set (set_iter xs) = set xs)"

definition set_add :: "'a \<Rightarrow> 'a list \<Rightarrow> 'a list" where
  "set_add x s = (if x \<in> set s then s else s @ [x])"

type_synonym name_tree = "(string \<times> (string \<times> string list) list) list"

text \<open>A \<open>None\<close> or an empty string is false in a Python condition.\<close>

definition truthy :: "string option \<Rightarrow> bool" where
  "truthy p = (case p of None \<Rightarrow> False | Some s \<Rightarrow> s \<noteq> [])"

section \<open>Static inspection of modules\<close>

text \<open>
  \<open>pyclbr.readmodule_ex\<close> is the collaborator that reads a module without running it. It
  is a parameter \<open>readmodule_ex\<close> of the model: given the full module name it raises or
  returns the module's content, a dictionary from names to descriptors. Of a descriptor
  the loader only asks whether it is a \<open>pyclbr.Class\<close> and, if so, for its \<open>methods\<close>, a
  dictionary from method names to line numbers.
\<close>

datatype pyclbr_obj = Class "(string \<times> nat) list" | Function

type_synonym module_content = "(string \<times> pyclbr_obj) list"

type_synonym readmodule = "string \<Rightarrow> error + module_content"

definition inspect_module :: "readmodule \<Rightarrow> string option \<Rightarrow> string \<Rightarrow> error + module_content" where
  "inspect_module readmodule_ex pkg_name mod_name =
     readmodule_ex (if \<not> truthy pkg_name then mod_name
                    else join_dot [case pkg_name of Some p \<Rightarrow> p | None \<Rightarrow> [], mod_name])"

definition get_classes_of_module :: "module_content \<Rightarrow> (string \<times> (string \<times> nat) list) list" where
  "get_classes_of_module module_content =
     foldl (\<lambda>classes (name, obj).
              case obj of Class methods \<Rightarrow> AList.update name methods classes
                        | Function \<Rightarrow> classes)
           [] module_content"

text \<open>
  \<open>sorted(cls.methods.keys(), key=lambda k: cls.methods[k])\<close>: the names by line number,
  names on the same line in the order of the dictionary (Python's sort is stable, and so is
  \<open>sort_key\<close>).
\<close>

definition get_method_names_by_class :: "string \<Rightarrow> (string \<times> nat) list \<Rightarrow> string list" where
  "get_method_names_by_class method_prefix methods =
     filter (\<lambda>n. startswith n method_prefix) (map fst (sort_key snd methods))"

section \<open>Building the name tree (\<open>_build_name_tree\<close>)\<close>

text \<open>
  Lines 209 to 214: the entries of the module and of the class are created when missing,
  then every method name is added to the class's set.
\<close>

definition tree_add_methods :: "string \<Rightarrow> string \<Rightarrow> string list \<Rightarrow> name_tree \<Rightarrow> name_tree" where
  "tree_add_methods mod_name cls_name mth_names tree =
     (let classes = (case map_of tree mod_name of None \<Rightarrow> [] | Some cs \<Rightarrow> cs);
          methods = (case map_of classes cls_name of None \<Rightarrow> [] | Some ms \<Rightarrow> ms)
      in AList.update mod_name
           (AList.update cls_name (foldl (\<lambda>s mth_name. set_add mth_name s) methods mth_names)
              classes)
           tree)"

text \<open>\<open>filter_cls_names and long_cls_name not in filter_cls_names\<close>\<close>

definition filtered_out :: "string list option \<Rightarrow> string \<Rightarrow> bool" where
  "filtered_out filter_cls_names long_cls_name =
     (case filter_cls_names of
        None \<Rightarrow> False
      | Some f \<Rightarrow> f \<noteq> [] \<and> long_cls_name \<notin> set f)"

text \<open>The inner loop, over the classes of one module.\<close>

fun build_classes ::
  "string \<Rightarrow> string list option \<Rightarrow> string \<Rightarrow> (string \<times> (string \<times> nat) list) list \<Rightarrow>
   name_tree \<Rightarrow> name_tree" where
  "build_classes method_prefix filter_cls_names mod_name [] tree = tree"
| "build_classes method_prefix filter_cls_names mod_name ((cls_name, cls) # rest) tree =
     (let long_cls_name = join_dot [mod_name, cls_name] in
      if filtered_out filter_cls_names long_cls_name
      then build_classes method_prefix filter_cls_names mod_name rest tree
      else
        let mth_names = get_method_names_by_class method_prefix cls in
        if mth_names = []
        then build_classes method_prefix filter_cls_names mod_name rest tree
        else build_classes method_prefix filter_cls_names mod_name rest
               (tree_add_methods mod_name cls_name mth_names tree))"

text \<open>
  The outer loop, over the module names. An exception of the inspection leaves the loop
  with the tree built so far in \<open>self._name_tree\<close>.
\<close>

fun build_modules ::
  "readmodule \<Rightarrow> string \<Rightarrow> string option \<Rightarrow> string list option \<Rightarrow> string list \<Rightarrow>
   name_tree \<Rightarrow> (error + unit) \<times> name_tree" where
  "build_modules readmodule_ex method_prefix pkg_name filter_cls_names [] tree =
     (Inr (), tree)"
| "build_modules readmodule_ex method_prefix pkg_name filter_cls_names (mod_name # rest) tree =
     (case inspect_module readmodule_ex pkg_name mod_name of
        Inl e \<Rightarrow> (Inl e, tree)
      | Inr mod_content \<Rightarrow>
          let classes = get_classes_of_module mod_content in
          if classes = []
          then build_modules readmodule_ex method_prefix pkg_name filter_cls_names rest tree
          else build_modules readmodule_ex method_prefix pkg_name filter_cls_names rest
                 (build_classes method_prefix filter_cls_names mod_name classes tree))"

definition build_name_tree ::
  "readmodule \<Rightarrow> string \<Rightarrow> string option \<Rightarrow> string list \<Rightarrow> string list option \<Rightarrow>
   (error + unit) \<times> name_tree" where
  "build_name_tree readmodule_ex method_prefix pkg_name mod_names filter_cls_names =
     build_modules readmodule_ex method_prefix pkg_name filter_cls_names mod_names []"

section \<open>Deleting from the name tree\<close>

text \<open>
  Both functions return the outcome together with the tree that \<open>self._name_tree\<close> holds
  afterwards, also when they raise.
\<close>

definition del_cls_in_name_tree ::
  "name_tree \<Rightarrow> string \<Rightarrow> string \<Rightarrow> (error + unit) \<times> name_tree" where
  "del_cls_in_name_tree tree mod_name cls_name =
     (let long_cls_name = join_dot [mod_name, cls_name] in
      case map_of tree mod_name of
        None \<Rightarrow> (Inl (ValueError (NotInModules long_cls_name mod_name)), tree)
      | Some classes \<Rightarrow>
          (case map_of classes cls_name of
             None \<Rightarrow> (Inl (ValueError (NotFoundIn long_cls_name cls_name mod_name)), tree)
           | Some methods \<Rightarrow>
               let classes1 = AList.delete cls_name classes;
                   tree1 = AList.update mod_name classes1 tree
               in (Inr (), if classes1 = [] then AList.delete mod_name tree1 else tree1)))"

definition del_mth_in_name_tree ::
  "name_tree \<Rightarrow> string \<Rightarrow> string \<Rightarrow> string \<Rightarrow> (error + unit) \<times> name_tree" where
  "del_mth_in_name_tree tree mod_name cls_name mth_name =
     (let long_mth_name = join_dot [mod_name, cls_name, mth_name] in
      case map_of tree mod_name of
        None \<Rightarrow> (Inl (ValueError (NotInModules long_mth_name mod_name)), tree)
      | Some classes \<Rightarrow>
          (case map_of classes cls_name of
             None \<Rightarrow> (Inl (ValueError (NotFoundIn long_mth_name cls_name mod_name)), tree)
           | Some methods \<Rightarrow>
               if mth_name \<notin> set methods
               then (Inl (ValueError (NotFoundIn long_mth_name mth_name cls_name)), tree)
               else
                 let methods1 = removeAll mth_name methods;
                     classes1 = AList.update cls_name methods1 classes;
                     classes2 = (if methods1 = [] then AList.delete cls_name classes1
                                 else classes1);
                     tree1 = AList.update mod_name classes2 tree
                 in (Inr (), if classes2 = [] then AList.delete mod_name tree1 else tree1)))"

section \<open>Flattening the name tree (\<open>_get_dotted_names_dfs\<close>)\<close>

text \<open>\<open>'.'.join((prefix, name)) if prefix else name\<close>\<close>

definition dotted_name :: "string option \<Rightarrow> string \<Rightarrow> string" where
  "dotted_name prefix name =
     (if truthy prefix then join_dot [case prefix of Some p \<Rightarrow> p | None \<Rightarrow> [], name]
      else name)"

text \<open>
  The source has one function that recurses on dictionaries and stops at a set. The tree
  has three levels of fixed types, so the recursion is written once per level: the set of
  a class (a leaf, where the names are appended), the classes of a module, the modules.
  \<open>dotted_names\<close> is the list the source appends to.
\<close>

fun get_dotted_names_dfs_set :: "string list \<Rightarrow> string option \<Rightarrow> string list \<Rightarrow> string list" where
  "get_dotted_names_dfs_set [] prefix dotted_names = dotted_names"
| "get_dotted_names_dfs_set (name # rest) prefix dotted_names =
     get_dotted_names_dfs_set rest prefix (dotted_names @ [dotted_name prefix name])"

fun get_dotted_names_dfs_cls ::
  "(string \<times> string list) list \<Rightarrow> string option \<Rightarrow> string list \<Rightarrow> string list" where
  "get_dotted_names_dfs_cls [] prefix dotted_names = dotted_names"
| "get_dotted_names_dfs_cls ((name, sub) # rest) prefix dotted_names =
     get_dotted_names_dfs_cls rest prefix
       (get_dotted_names_dfs_set sub (Some (dotted_name prefix name)) dotted_names)"

fun get_dotted_names_dfs :: "name_tree \<Rightarrow> string option \<Rightarrow> string list \<Rightarrow> string list" where
  "get_dotted_names_dfs [] prefix dotted_names = dotted_names"
| "get_dotted_names_dfs ((name, sub) # rest) prefix dotted_names =
     get_dotted_names_dfs rest prefix
       (get_dotted_names_dfs_cls sub (Some (dotted_name prefix name)) dotted_names)"

definition get_full_method_names_from_tree :: "name_tree \<Rightarrow> string option \<Rightarrow> string list" where
  "get_full_method_names_from_tree tree pkg_name = get_dotted_names_dfs tree pkg_name []"

section \<open>Applying the exclusions of a group\<close>

text \<open>
  \<open>for except_cls_name in set(except_cls_names)\<close>: the loop runs over the names without
  repetition, in the order \<open>set_iter\<close> in which the program iterates the set. The loop
  itself is \<open>del_except_classes_loop\<close>; an exception of the parser or of the deletion ends
  it, with the tree as it is then.
\<close>

fun del_except_classes_loop :: "string list \<Rightarrow> name_tree \<Rightarrow> (error + unit) \<times> name_tree" where
  "del_except_classes_loop [] tree = (Inr (), tree)"
| "del_except_classes_loop (except_cls_name # rest) tree =
     (case get_cls_name_parts except_cls_name of
        Inl e \<Rightarrow> (Inl e, tree)
      | Inr (mod_name, cls_name) \<Rightarrow>
          (case del_cls_in_name_tree tree mod_name cls_name of
             (Inl e, tree1) \<Rightarrow> (Inl e, tree1)
           | (Inr u, tree1) \<Rightarrow> del_except_classes_loop rest tree1))"

definition del_except_classes_in_name_tree ::
  "set_order \<Rightarrow> name_tree \<Rightarrow> string list \<Rightarrow> (error + unit) \<times> name_tree" where
  "del_except_classes_in_name_tree set_iter tree except_cls_names =
     del_except_classes_loop (set_iter except_cls_names) tree"

fun del_except_methods_loop :: "string list \<Rightarrow> name_tree \<Rightarrow> (error + unit) \<times> name_tree" where
  "del_except_methods_loop [] tree = (Inr (), tree)"
| "del_except_methods_loop (except_mth_name # rest) tree =
     (case get_mth_name_parts except_mth_name of
        Inl e \<Rightarrow> (Inl e, tree)
      | Inr (mod_name, cls_name, mth_name) \<Rightarrow>
          (case del_mth_in_name_tree tree mod_name cls_name mth_name of
             (Inl e, tree1) \<Rightarrow> (Inl e, tree1)
           | (Inr u, tree1) \<Rightarrow> del_except_methods_loop rest tree1))"

definition del_except_methods_in_name_tree ::
  "set_order \<Rightarrow> name_tree \<Rightarrow> string list \<Rightarrow> (error + unit) \<times> name_tree" where
  "del_except_methods_in_name_tree set_iter tree except_mth_names =
     del_except_methods_loop (set_iter except_mth_names) tree"

section \<open>The configuration and its parsing (\<open>_parse_tests_from_dict\<close>)\<close>

text \<open>
  The configuration is the dictionary the caller has already read. A key that may be
  missing is an \<open>option\<close>; reading a missing key that the source needs raises \<open>KeyError\<close>.
  \<open>granularity\<close>, \<open>groups\<close> and the two top-level keys are always there. A suite's
  \<open>max_workers\<close> is an integer when present.
\<close>

record group =
  g_disable :: "bool option"
  g_granularity :: string
  g_modules :: "string list option"
  g_classes :: "string list option"
  g_methods :: "string list option"
  g_except_classes :: "string list option"
  g_except_methods :: "string list option"

record suite =
  s_package :: "string option"
  s_groups :: "(string \<times> group) list"
  s_max_workers :: "int option"

record config =
  test_suites :: "string list"
  suites :: "(string \<times> suite) list"

text \<open>An entry of the result: \<open>package\<close>, \<open>test_case_names\<close> (a set) and \<open>max_workers\<close>.\<close>

record parsed_suite =
  r_package :: string
  r_test_case_names :: "string list"
  r_max_workers :: int

text \<open>
  Lines 108 to 111: the module names of the classes of a class group, collected in a set.
\<close>

fun cls_mod_names :: "string list \<Rightarrow> string list \<Rightarrow> error + string list" where
  "cls_mod_names [] mod_names = Inr mod_names"
| "cls_mod_names (long_cls_name # rest) mod_names =
     (case get_cls_name_parts long_cls_name of
        Inl e \<Rightarrow> Inl e
      | Inr (mod_name, cls_name) \<Rightarrow> cls_mod_names rest (set_add mod_name mod_names))"

text \<open>Lines 119 and 120: every method name of a method group is checked.\<close>

fun check_mth_names :: "string list \<Rightarrow> error + unit" where
  "check_mth_names [] = Inr ()"
| "check_mth_names (long_mth_name # rest) =
     (case get_mth_name_parts long_mth_name of
        Inl e \<Rightarrow> Inl e
      | Inr parts \<Rightarrow> check_mth_names rest)"

text \<open>
  \<open>if 'except_classes' in group: ...\<close> and \<open>if 'except_methods' in group: ...\<close>, followed by
  the flattening (lines 100 to 104 and 113 to 115).
\<close>

definition apply_exclusions ::
  "set_order \<Rightarrow> string list option \<Rightarrow> string list option \<Rightarrow> string option \<Rightarrow> name_tree \<Rightarrow>
   (error + string list) \<times> name_tree" where
  "apply_exclusions set_iter exc_classes exc_methods pkg_name tree =
     (case (case exc_classes of
              None \<Rightarrow> (Inr (), tree)
            | Some names \<Rightarrow> del_except_classes_in_name_tree set_iter tree names) of
        (Inl e, tree1) \<Rightarrow> (Inl e, tree1)
      | (Inr u, tree1) \<Rightarrow>
          (case (case exc_methods of
                   None \<Rightarrow> (Inr (), tree1)
                 | Some names \<Rightarrow> del_except_methods_in_name_tree set_iter tree1 names) of
             (Inl e, tree2) \<Rightarrow> (Inl e, tree2)
           | (Inr u, tree2) \<Rightarrow>
               (Inr (get_full_method_names_from_tree tree2 pkg_name), tree2)))"

text \<open>
  The body of the loop over the groups of a suite (lines 92 to 125). It returns the names
  the group adds to \<open>test_cases_names\<close>, and the value of \<open>self._name_tree\<close> afterwards
  (\<open>None\<close> until the first build). A class group has no \<open>except_classes\<close> step.
  \<open>set_iter\<close> is handed to the two loops over the exclusions.
\<close>

definition parse_group ::
  "set_order \<Rightarrow> readmodule \<Rightarrow> string \<Rightarrow> string option \<Rightarrow> group \<Rightarrow> name_tree option \<Rightarrow>
   (error + string list) \<times> name_tree option" where
  "parse_group set_iter readmodule_ex method_prefix pkg_name grp name_tree =
     (if g_disable grp = Some True then (Inr [], name_tree)
      else if g_granularity grp = ''module'' then
        (case g_modules grp of
           None \<Rightarrow> (Inl (KeyError ''modules''), name_tree)
         | Some mod_names \<Rightarrow>
             (case build_name_tree readmodule_ex method_prefix pkg_name (remdups mod_names) None of
                (Inl e, tree) \<Rightarrow> (Inl e, Some tree)
              | (Inr u, tree) \<Rightarrow>
                  (case apply_exclusions set_iter (g_except_classes grp) (g_except_methods grp)
                          pkg_name tree of
                     (r, tree1) \<Rightarrow> (r, Some tree1))))
      else if g_granularity grp = ''class'' then
        (case g_classes grp of
           None \<Rightarrow> (Inl (KeyError ''classes''), name_tree)
         | Some long_cls_names \<Rightarrow>
             (case cls_mod_names (remdups long_cls_names) [] of
                Inl e \<Rightarrow> (Inl e, name_tree)
              | Inr mod_names \<Rightarrow>
                  (case build_name_tree readmodule_ex method_prefix pkg_name mod_names
                          (Some (remdups long_cls_names)) of
                     (Inl e, tree) \<Rightarrow> (Inl e, Some tree)
                   | (Inr u, tree) \<Rightarrow>
                       (case apply_exclusions set_iter None (g_except_methods grp) pkg_name tree of
                          (r, tree1) \<Rightarrow> (r, Some tree1)))))
      else if g_granularity grp = ''method'' then
        (case g_methods grp of
           None \<Rightarrow> (Inl (KeyError ''methods''), name_tree)
         | Some long_mth_names \<Rightarrow>
             (case check_mth_names (remdups long_mth_names) of
                Inl e \<Rightarrow> (Inl e, name_tree)
              | Inr u \<Rightarrow>
                  (Inr (case pkg_name of
                          None \<Rightarrow> remdups long_mth_names
                        | Some p \<Rightarrow>
                            if p = [] then remdups long_mth_names
                            else map (\<lambda>x. join_dot [p, x]) (remdups long_mth_names)),
                   name_tree)))
      else (Inl (ValueError BadGranularity), name_tree))"

text \<open>The loop over the groups; \<open>test_cases_names\<close> is the list the source extends.\<close>

fun parse_groups ::
  "set_order \<Rightarrow> readmodule \<Rightarrow> string \<Rightarrow> string option \<Rightarrow> (string \<times> group) list \<Rightarrow> string list \<Rightarrow>
   name_tree option \<Rightarrow> (error + string list) \<times> name_tree option" where
  "parse_groups set_iter readmodule_ex method_prefix pkg_name [] test_cases_names name_tree =
     (Inr test_cases_names, name_tree)"
| "parse_groups set_iter readmodule_ex method_prefix pkg_name ((group_key, grp) # rest)
       test_cases_names name_tree =
     (case parse_group set_iter readmodule_ex method_prefix pkg_name grp name_tree of
        (Inl e, name_tree1) \<Rightarrow> (Inl e, name_tree1)
      | (Inr names, name_tree1) \<Rightarrow>
          parse_groups set_iter readmodule_ex method_prefix pkg_name rest
            (test_cases_names @ names) name_tree1)"

text \<open>
  The body of the loop over the suites (lines 85 to 131). \<open>pkg_name\<close> is the suite's
  package when there is one and it is not empty, else \<open>None\<close>; the entry's \<open>package\<close> is
  \<open>pkg_name or 'None'\<close>.
\<close>

definition suite_pkg_name :: "suite \<Rightarrow> string option" where
  "suite_pkg_name suite = (if truthy (s_package suite) then s_package suite else None)"

definition parse_suite ::
  "set_order \<Rightarrow> readmodule \<Rightarrow> string \<Rightarrow> suite \<Rightarrow> name_tree option \<Rightarrow>
   (error + parsed_suite) \<times> name_tree option" where
  "parse_suite set_iter readmodule_ex method_prefix suite name_tree =
     (let pkg_name = suite_pkg_name suite in
      case parse_groups set_iter readmodule_ex method_prefix pkg_name (s_groups suite) [] name_tree of
        (Inl e, name_tree1) \<Rightarrow> (Inl e, name_tree1)
      | (Inr test_cases_names, name_tree1) \<Rightarrow>
          (Inr \<lparr>r_package = (case pkg_name of
                                None \<Rightarrow> ''None''
                              | Some p \<Rightarrow> if p = [] then ''None'' else p),
                r_test_case_names = remdups test_cases_names,
                r_max_workers = (case s_max_workers suite of None \<Rightarrow> 1 | Some n \<Rightarrow> n)\<rparr>,
           name_tree1))"

fun parse_suites ::
  "set_order \<Rightarrow> readmodule \<Rightarrow> string \<Rightarrow> (string \<times> suite) list \<Rightarrow> string list \<Rightarrow>
   (string \<times> parsed_suite) list \<Rightarrow> name_tree option \<Rightarrow>
   (error + (string \<times> parsed_suite) list) \<times> name_tree option" where
  "parse_suites set_iter readmodule_ex method_prefix all_suites [] res_suites name_tree =
     (Inr res_suites, name_tree)"
| "parse_suites set_iter readmodule_ex method_prefix all_suites (suite_name # rest) res_suites name_tree =
     (case map_of all_suites suite_name of
        None \<Rightarrow> (Inl (KeyError suite_name), name_tree)
      | Some suite \<Rightarrow>
          (case parse_suite set_iter readmodule_ex method_prefix suite name_tree of
             (Inl e, name_tree1) \<Rightarrow> (Inl e, name_tree1)
           | (Inr r, name_tree1) \<Rightarrow>
               parse_suites set_iter readmodule_ex method_prefix all_suites rest
                 (AList.update suite_name r res_suites) name_tree1))"

definition parse_tests_from_dict ::
  "set_order \<Rightarrow> readmodule \<Rightarrow> string \<Rightarrow> config \<Rightarrow> name_tree option \<Rightarrow>
   (error + (string \<times> parsed_suite) list) \<times> name_tree option" where
  "parse_tests_from_dict set_iter readmodule_ex method_prefix dict_conf name_tree =
     parse_suites set_iter readmodule_ex method_prefix (suites dict_conf) (test_suites dict_conf) []
       name_tree"

section \<open>Loading the cases (\<open>_make_case_from_full_name\<close>)\<close>

text \<open>
  The running Python program is the second collaborator. Of it the loader asks: to import
  a module by its dotted name (\<open>__import__\<close> returns the top-level package of the name, or
  raises), to read an attribute of an object (\<open>getattr\<close>), whether an object is a plain
  function (\<open>isinstance(obj, types.FunctionType)\<close>), whether an object is a test-case
  class (\<open>isinstance(parent, type) and issubclass(parent, self._case_class)\<close>), and to
  instantiate a class for a method name (\<open>parent(name)\<close>). \<open>'o\<close> is the type of objects.
\<close>

record 'o runtime =
  import_module :: "string \<Rightarrow> error + 'o"
  getattr :: "'o \<Rightarrow> string \<Rightarrow> error + 'o"
  is_function :: "'o \<Rightarrow> bool"
  is_case_class :: "'o \<Rightarrow> bool"
  construct :: "'o \<Rightarrow> string \<Rightarrow> error + 'o"

text \<open>
  The \<open>while\<close> loop of lines 56 to 63: the longest prefix of the name that can be
  imported. Only \<open>ImportError\<close> is caught; when the last part has been dropped it is raised
  again. The result is \<open>mod\<close>, which stays \<open>None\<close> when the loop does not run.
\<close>

function import_prefix :: "'o runtime \<Rightarrow> string list \<Rightarrow> error + 'o option" where
  "import_prefix rt mod_name_parts =
     (if mod_name_parts = [] then Inr None
      else
        case import_module rt (join_dot mod_name_parts) of
          Inr mod_obj \<Rightarrow> Inr (Some mod_obj)
        | Inl e \<Rightarrow>
            (case e of
               ImportError s \<Rightarrow>
                 if butlast mod_name_parts = [] then Inl e
                 else import_prefix rt (butlast mod_name_parts)
             | ValueError msg \<Rightarrow> Inl e
             | KeyError k \<Rightarrow> Inl e
             | AttributeError a \<Rightarrow> Inl e
             | TypeError \<Rightarrow> Inl e))"
  by pat_completeness auto
termination
  by (relation "measure (\<lambda>(rt, ps). length ps)") auto

declare import_prefix.simps [simp del]






section \<open>Notions the statements use\<close>

text \<open>
  The leaves of a tree, as paths \<open>(module, class, method)\<close>, each listed as often as the
  tree holds it; a well-formed tree (a dictionary has every key once, a set every element
  once); a tree without empty branches; and the full name of a leaf under a package.
\<close>

definition module_leaves ::
  "string \<Rightarrow> (string \<times> string list) list \<Rightarrow> (string \<times> string \<times> string) list" where
  "module_leaves m cs = concat (map (\<lambda>(c, ms). map (\<lambda>t. (m, c, t)) ms) cs)"

definition leaves :: "name_tree \<Rightarrow> (string \<times> string \<times> string) list" where
  "leaves tree = concat (map (\<lambda>(m, cs). module_leaves m cs) tree)"

definition has_module :: "name_tree \<Rightarrow> string \<Rightarrow> bool" where
  "has_module tree m = (m \<in> fst ` set tree)"

definition has_class :: "name_tree \<Rightarrow> string \<Rightarrow> string \<Rightarrow> bool" where
  "has_class tree m c = (\<exists>cs. (m, cs) \<in> set tree \<and> c \<in> fst ` set cs)"

definition has_method :: "name_tree \<Rightarrow> string \<Rightarrow> string \<Rightarrow> string \<Rightarrow> bool" where
  "has_method tree m c t = ((m, c, t) \<in> set (leaves tree))"

definition wf_classes :: "(string \<times> string list) list \<Rightarrow> bool" where
  "wf_classes cs = (distinct (map fst cs) \<and> list_all (\<lambda>(c, ms). distinct ms) cs)"

definition wf_tree :: "name_tree \<Rightarrow> bool" where
  "wf_tree tree = (distinct (map fst tree) \<and> list_all (\<lambda>(m, cs). wf_classes cs) tree)"

definition no_empty_branch :: "name_tree \<Rightarrow> bool" where
  "no_empty_branch tree =
     list_all (\<lambda>(m, cs). cs \<noteq> [] \<and> list_all (\<lambda>(c, ms). ms \<noteq> []) cs) tree"

definition full_name :: "string option \<Rightarrow> string \<times> string \<times> string \<Rightarrow> string" where
  "full_name pkg_name l =
     (case l of (m, c, t) \<Rightarrow>
        (case pkg_name of
           None \<Rightarrow> join_dot [m, c, t]
         | Some p \<Rightarrow> if p = [] then join_dot [m, c, t] else join_dot [p, m, c, t]))"

text \<open>
  The classes of a module content, in its order: what \<open>_get_classes_of_module\<close> returns
  for a content whose keys are distinct (lemma \<open>get_classes_of_module_distinct\<close>).
\<close>

definition class_items :: "module_content \<Rightarrow> (string \<times> (string \<times> nat) list) list" where
  "class_items content =
     concat (map (\<lambda>(name, obj). case obj of Class ms \<Rightarrow> [(name, ms)] | Function \<Rightarrow> []) content)"

text \<open>
  What a run of exclusions leaves of a tree without empty branches: the tree without the
  classes of a set (modules that become empty are dropped), and the tree without the
  methods of a set (classes, then modules, that become empty are dropped).
\<close>

definition remove_classes :: "(string \<times> string) set \<Rightarrow> name_tree \<Rightarrow> name_tree" where
  "remove_classes D tree =
     filter (\<lambda>(m, cs). cs \<noteq> [])
       (map (\<lambda>(m, cs). (m, filter (\<lambda>(c, ms). (m, c) \<notin> D) cs)) tree)"

definition prune_methods ::
  "(string \<times> string \<times> string) set \<Rightarrow> string \<Rightarrow> (string \<times> string list) list \<Rightarrow>
   (string \<times> string list) list" where
  "prune_methods D m cs =
     filter (\<lambda>(c, ms). ms \<noteq> []) (map (\<lambda>(c, ms). (c, filter (\<lambda>t. (m, c, t) \<notin> D) ms)) cs)"

definition remove_methods :: "(string \<times> string \<times> string) set \<Rightarrow> name_tree \<Rightarrow> name_tree" where
  "remove_methods D tree =
     filter (\<lambda>(m, cs). cs \<noteq> []) (map (\<lambda>(m, cs). (m, prune_methods D m cs)) tree)"

text \<open>
  The trees that \<open>self._name_tree\<close> can hold: the tree a call of \<open>_build_name_tree\<close>
  leaves (whether the inspection raised or not), and the tree a deletion leaves when
  applied to such a tree.
\<close>

inductive reachable :: "name_tree \<Rightarrow> bool" where
  built: "reachable (snd (build_name_tree readmodule_ex method_prefix pkg_name mod_names filter_cls_names))"
| del_cls: "reachable tree \<Longrightarrow> reachable (snd (del_cls_in_name_tree tree mod_name cls_name))"
| del_mth:
    "reachable tree \<Longrightarrow> reachable (snd (del_mth_in_name_tree tree mod_name cls_name mth_name))"

text \<open>
  An inspector for the examples. Module \<open>m\<close> declares a function \<open>f\<close>, class \<open>C\<close> with the
  methods \<open>helper\<close>, \<open>test_a\<close> and \<open>test_b\<close>, and class \<open>D\<close> with the method \<open>helper\<close> only;
  module \<open>pkg.n\<close> declares class \<open>E\<close> with \<open>test_z\<close>; no other module is found.
\<close>

definition example_readmodule :: readmodule where
  "example_readmodule name =
     (if name = ''m''
      then Inr [(''f'', Function),
                (''C'', Class [(''test_b'', 7), (''helper'', 3), (''test_a'', 5)]),
                (''D'', Class [(''helper'', 12)])]
      else if name = ''pkg.n'' then Inr [(''E'', Class [(''test_z'', 2)])]
      else Inl (ImportError name))"

text \<open>A group of granularity \<open>method\<close> with the given targets and no other key.\<close>

abbreviation method_group :: "string list \<Rightarrow> group" where
  "method_group names \<equiv>
     \<lparr>g_disable = None, g_granularity = ''method'', g_modules = None, g_classes = None,
      g_methods = Some names, g_except_classes = None, g_except_methods = None\<rparr>"

text \<open>
  A group of granularity \<open>module\<close>, a disabled group, and a suite of three groups of
  which the first two overlap and the third is disabled.
\<close>

abbreviation module_group :: "string list \<Rightarrow> group" where
  "module_group names \<equiv>
     \<lparr>g_disable = None, g_granularity = ''module'', g_modules = Some names, g_classes = None,
      g_methods = None, g_except_classes = None, g_except_methods = None\<rparr>"

abbreviation disabled_group :: "string list \<Rightarrow> group" where
  "disabled_group names \<equiv>
     \<lparr>g_disable = Some True, g_granularity = ''method'', g_modules = None, g_classes = None,
      g_methods = Some names, g_except_classes = None, g_except_methods = None\<rparr>"

abbreviation example_suite :: suite where
  "example_suite \<equiv>
     \<lparr>s_package = None,
      s_groups = [(''g1'', module_group [''m'']),
                  (''g2'', method_group [''m.C.test_a'', ''x.Y.test_q'']),
                  (''g3'', disabled_group [''z.Z.test_zz''])],
      s_max_workers = None\<rparr>"

text \<open>A tree with two classes in one module, for the examples.\<close>

abbreviation example_tree :: name_tree where
  "example_tree \<equiv> [(''m'', [(''C'', [''test_a'', ''test_b'']), (''D'', [''test_c''])])]"

section \<open>Facts about splitting and joining\<close>

lemma split_dot_not_Nil: "split_dot s \<noteq> []"
  by (induction s) auto

lemma split_dot_hd_tl: "hd (split_dot s) # tl (split_dot s) = split_dot s"
  by (simp add: split_dot_not_Nil)

lemma join_dot_Cons: "ps \<noteq> [] \<Longrightarrow> join_dot (p # ps) = p @ CHR ''.'' # join_dot ps"
  by (cases ps) auto

lemma join_dot_split_dot: "join_dot (split_dot s) = s"
proof (induction s)
  case Nil
  show ?case by simp
next
  case (Cons c cs)
  obtain p ps where sp: "split_dot cs = p # ps"
    using split_dot_not_Nil by (cases "split_dot cs") auto
  show ?case
  proof (cases "c = CHR ''.''")
    case True
    then show ?thesis using Cons by (simp add: join_dot_Cons split_dot_not_Nil)
  next
    case False
    with Cons sp show ?thesis by (cases ps) auto
  qed
qed

lemma split_dot_no_dot: "p \<in> set (split_dot s) \<Longrightarrow> CHR ''.'' \<notin> set p"
proof (induction s arbitrary: p)
  case Nil
  then show ?case by simp
next
  case (Cons c cs)
  obtain q qs where sp: "split_dot cs = q # qs"
    using split_dot_not_Nil by (cases "split_dot cs") auto
  from Cons sp show ?case by (auto split: if_splits)
qed

lemma split_dot_plain: "CHR ''.'' \<notin> set p \<Longrightarrow> split_dot p = [p]"
  by (induction p) auto

lemma split_dot_append:
  "CHR ''.'' \<notin> set p \<Longrightarrow> split_dot (p @ CHR ''.'' # s) = p # split_dot s"
  by (induction p) auto

lemma split_dot_join_dot:
  "ps \<noteq> [] \<Longrightarrow> \<forall>p\<in>set ps. CHR ''.'' \<notin> set p \<Longrightarrow> split_dot (join_dot ps) = ps"
proof (induction ps rule: join_dot.induct)
  case 1
  then show ?case by simp
next
  case (2 p)
  then show ?case by (simp add: split_dot_plain)
next
  case (3 p q ps)
  then show ?case by (simp add: split_dot_append)
qed

lemma length_split_dot: "length (split_dot s) = Suc (count_list s (CHR ''.''))"
proof (induction s)
  case Nil
  show ?case by simp
next
  case (Cons c cs)
  obtain q qs where sp: "split_dot cs = q # qs"
    using split_dot_not_Nil by (cases "split_dot cs") auto
  from Cons sp show ?case by auto
qed

lemma split_dot_two_iff:
  "split_dot s = [m, c] \<longleftrightarrow>
     s = m @ CHR ''.'' # c \<and> CHR ''.'' \<notin> set m \<and> CHR ''.'' \<notin> set c"
proof
  assume h: "split_dot s = [m, c]"
  have "join_dot (split_dot s) = s" by (rule join_dot_split_dot)
  with h have "s = m @ CHR ''.'' # c" by simp
  moreover have "CHR ''.'' \<notin> set m" "CHR ''.'' \<notin> set c"
    using split_dot_no_dot [of m s] split_dot_no_dot [of c s] h by auto
  ultimately show "s = m @ CHR ''.'' # c \<and> CHR ''.'' \<notin> set m \<and> CHR ''.'' \<notin> set c"
    by simp
next
  assume "s = m @ CHR ''.'' # c \<and> CHR ''.'' \<notin> set m \<and> CHR ''.'' \<notin> set c"
  then show "split_dot s = [m, c]"
    by (simp add: split_dot_append split_dot_plain)
qed

lemma split_dot_three_iff:
  "split_dot s = [m, c, t] \<longleftrightarrow>
     s = m @ CHR ''.'' # c @ CHR ''.'' # t \<and>
     CHR ''.'' \<notin> set m \<and> CHR ''.'' \<notin> set c \<and> CHR ''.'' \<notin> set t"
proof
  assume h: "split_dot s = [m, c, t]"
  have "join_dot (split_dot s) = s" by (rule join_dot_split_dot)
  with h have "s = m @ CHR ''.'' # c @ CHR ''.'' # t" by simp
  moreover have "CHR ''.'' \<notin> set m" "CHR ''.'' \<notin> set c" "CHR ''.'' \<notin> set t"
    using split_dot_no_dot [of m s] split_dot_no_dot [of c s] split_dot_no_dot [of t s] h
    by auto
  ultimately show "s = m @ CHR ''.'' # c @ CHR ''.'' # t \<and>
     CHR ''.'' \<notin> set m \<and> CHR ''.'' \<notin> set c \<and> CHR ''.'' \<notin> set t"
    by simp
next
  assume "s = m @ CHR ''.'' # c @ CHR ''.'' # t \<and>
     CHR ''.'' \<notin> set m \<and> CHR ''.'' \<notin> set c \<and> CHR ''.'' \<notin> set t"
  then show "split_dot s = [m, c, t]"
    by (simp add: split_dot_append split_dot_plain)
qed

lemma get_cls_name_parts_Inr:
  "get_cls_name_parts s = Inr (m, c) \<longleftrightarrow> split_dot s = [m, c]"
  by (auto simp: get_cls_name_parts_def split: list.splits)

lemma get_mth_name_parts_Inr:
  "get_mth_name_parts s = Inr (m, c, t) \<longleftrightarrow> split_dot s = [m, c, t]"
  by (auto simp: get_mth_name_parts_def split: list.splits)

lemma get_cls_name_parts_Inl:
  "get_cls_name_parts s = Inl e \<longleftrightarrow>
     length (split_dot s) \<noteq> 2 \<and> e = ValueError (NotComply s ''module.class'')"
  by (auto simp: get_cls_name_parts_def split: list.splits)

lemma get_mth_name_parts_Inl:
  "get_mth_name_parts s = Inl e \<longleftrightarrow>
     length (split_dot s) \<noteq> 3 \<and> e = ValueError (NotComply s ''module.class.method'')"
  by (auto simp: get_mth_name_parts_def split: list.splits)

section \<open>C4: the name parsers\<close>

text \<open>
  C4, as the spec states it, is false on the code: a string that splits into two segments
  one of which is empty is not rejected. \<open>'a.'\<close> has the segments \<open>'a'\<close> and \<open>''\<close>, and
  \<open>_get_cls_name_parts\<close> returns them.
\<close>

theorem get_cls_name_parts_empty_segment_counterexample:
  "get_cls_name_parts ''a.'' = Inr (''a'', '''')"
  by (simp add: get_cls_name_parts_def)

text \<open>
  C4, amended: \<open>_get_cls_name_parts\<close> returns \<open>(module, class)\<close> exactly when the string is
  \<open>module.class\<close> with no further dot (it has exactly two segments, empty or not), and
  fails with the \<open>does not comply\<close> error naming the string exactly when the number of
  segments (one more than the number of dots) is not 2; \<open>_get_mth_name_parts\<close> does the
  same with three segments.
\<close>

theorem name_parts_exact_split:
  "(get_cls_name_parts s = Inr (m, c) \<longleftrightarrow>
      s = m @ CHR ''.'' # c \<and> CHR ''.'' \<notin> set m \<and> CHR ''.'' \<notin> set c) \<and>
   (get_cls_name_parts s = Inl e \<longleftrightarrow>
      count_list s (CHR ''.'') \<noteq> 1 \<and> e = ValueError (NotComply s ''module.class'')) \<and>
   (get_mth_name_parts s = Inr (m', c', t') \<longleftrightarrow>
      s = m' @ CHR ''.'' # c' @ CHR ''.'' # t' \<and>
      CHR ''.'' \<notin> set m' \<and> CHR ''.'' \<notin> set c' \<and> CHR ''.'' \<notin> set t') \<and>
   (get_mth_name_parts s = Inl e' \<longleftrightarrow>
      count_list s (CHR ''.'') \<noteq> 2 \<and>
      e' = ValueError (NotComply s ''module.class.method''))"
proof -
  have n2: "length (split_dot s) \<noteq> 2 \<longleftrightarrow> count_list s (CHR ''.'') \<noteq> 1"
    by (simp add: length_split_dot)
  have n3: "length (split_dot s) \<noteq> 3 \<longleftrightarrow> count_list s (CHR ''.'') \<noteq> 2"
    by (simp add: length_split_dot)
  show ?thesis
    unfolding get_cls_name_parts_Inr get_mth_name_parts_Inr
      get_cls_name_parts_Inl get_mth_name_parts_Inl
      split_dot_two_iff split_dot_three_iff n2 n3
    by simp
qed

section \<open>Facts about the tree operations\<close>

lemma module_leaves_Nil [simp]: "module_leaves m [] = []"
  by (simp add: module_leaves_def)

lemma module_leaves_Cons [simp]:
  "module_leaves m ((c, ms) # cs) = map (\<lambda>t. (m, c, t)) ms @ module_leaves m cs"
  by (simp add: module_leaves_def)

lemma module_leaves_append [simp]:
  "module_leaves m (xs @ ys) = module_leaves m xs @ module_leaves m ys"
  by (simp add: module_leaves_def)

lemma leaves_Nil [simp]: "leaves [] = []"
  by (simp add: leaves_def)

lemma leaves_Cons [simp]: "leaves ((m, cs) # tree) = module_leaves m cs @ leaves tree"
  by (simp add: leaves_def)

lemma leaves_append [simp]: "leaves (xs @ ys) = leaves xs @ leaves ys"
  by (simp add: leaves_def)

lemma in_module_leaves:
  "(m', c, t) \<in> set (module_leaves m cs) \<longleftrightarrow> m' = m \<and> (\<exists>ms. (c, ms) \<in> set cs \<and> t \<in> set ms)"
  by (induction cs) auto

lemma in_leaves:
  "(m, c, t) \<in> set (leaves tree) \<longleftrightarrow>
     (\<exists>cs ms. (m, cs) \<in> set tree \<and> (c, ms) \<in> set cs \<and> t \<in> set ms)"
  by (induction tree) (auto simp: in_module_leaves)

lemma alist_split:
  "map_of al k = Some v \<Longrightarrow> \<exists>pre post. al = pre @ (k, v) # post \<and> k \<notin> fst ` set pre"
proof (induction al)
  case Nil
  then show ?case by simp
next
  case (Cons p al)
  show ?case
  proof (cases "fst p = k")
    case True
    with Cons.prems have "p = (k, v)" by (cases p) auto
    then have "p # al = [] @ (k, v) # al \<and> k \<notin> fst ` set []" by simp
    then show ?thesis by blast
  next
    case False
    with Cons.prems have "map_of al k = Some v" by (cases p) auto
    from Cons.IH [OF this] obtain pre post
      where "al = pre @ (k, v) # post" "k \<notin> fst ` set pre" by blast
    with False have "p # al = (p # pre) @ (k, v) # post \<and> k \<notin> fst ` set (p # pre)"
      by auto
    then show ?thesis by blast
  qed
qed

lemma alist_split_distinct:
  assumes "distinct (map fst al)" "map_of al k = Some v"
  shows "\<exists>pre post. al = pre @ (k, v) # post \<and> k \<notin> fst ` set pre \<and> k \<notin> fst ` set post"
proof -
  from alist_split [OF assms(2)] obtain pre post
    where al: "al = pre @ (k, v) # post" and pre: "k \<notin> fst ` set pre" by blast
  from assms(1) al have "k \<notin> fst ` set post" by auto
  with al pre show ?thesis by blast
qed

lemma update_at:
  "k \<notin> fst ` set pre \<Longrightarrow> AList.update k v' (pre @ (k, v) # post) = pre @ (k, v') # post"
  by (induction pre) auto

lemma delete_at:
  "k \<notin> fst ` set pre \<Longrightarrow> k \<notin> fst ` set post \<Longrightarrow>
   AList.delete k (pre @ (k, v) # post) = pre @ post"
proof -
  have "AList.delete k pre = pre" "AList.delete k post = post" if "k \<notin> fst ` set pre" "k \<notin> fst ` set post"
    using that by simp_all
  then show "k \<notin> fst ` set pre \<Longrightarrow> k \<notin> fst ` set post \<Longrightarrow>
   AList.delete k (pre @ (k, v) # post) = pre @ post"
    by (simp add: AList.delete_eq)
qed

lemma filter_module_leaves_other:
  "c \<notin> fst ` set cs \<Longrightarrow> (\<And>l. fst (snd l) \<noteq> c \<Longrightarrow> P l) \<Longrightarrow>
   filter P (module_leaves m cs) = module_leaves m cs"
  by (induction cs) (auto simp: filter_id_conv)

lemma filter_leaves_other:
  "m \<notin> fst ` set tree \<Longrightarrow> (\<And>l. fst l \<noteq> m \<Longrightarrow> P l) \<Longrightarrow>
   filter P (leaves tree) = leaves tree"
  by (induction tree) (auto simp: filter_id_conv in_module_leaves)

lemma leaves_replace:
  assumes d: "distinct (map fst tree)" and m: "map_of tree m = Some cs"
    and cs': "module_leaves m cs' = filter P (module_leaves m cs)"
    and P: "\<And>l. fst l \<noteq> m \<Longrightarrow> P l"
  shows "leaves (AList.update m cs' tree) = filter P (leaves tree)"
    and "cs' = [] \<Longrightarrow> leaves (AList.delete m (AList.update m cs' tree)) = filter P (leaves tree)"
proof -
  from alist_split_distinct [OF d m] obtain pre post
    where t: "tree = pre @ (m, cs) # post" and pre: "m \<notin> fst ` set pre"
      and post: "m \<notin> fst ` set post" by blast
  have fp: "filter P (leaves pre) = leaves pre" "filter P (leaves post) = leaves post"
    using pre post P by (simp_all add: filter_leaves_other)
  show "leaves (AList.update m cs' tree) = filter P (leaves tree)"
    using t pre fp cs' by (simp add: update_at)
  show "leaves (AList.delete m (AList.update m cs' tree)) = filter P (leaves tree)" if "cs' = []"
    using t pre post fp cs' that by (simp add: update_at delete_at)
qed

lemma module_leaves_delete:
  "module_leaves m (AList.delete c cs) =
     filter (\<lambda>l. \<not> (fst l = m \<and> fst (snd l) = c)) (module_leaves m cs)"
  by (induction cs) (auto simp: filter_id_conv)

lemma module_leaves_remove:
  assumes d: "distinct (map fst cs)" and c: "map_of cs c = Some ms"
  shows "module_leaves m (AList.update c (removeAll t ms) cs) =
           filter (\<lambda>l. l \<noteq> (m, c, t)) (module_leaves m cs)"
    and "removeAll t ms = [] \<Longrightarrow>
         module_leaves m (AList.delete c (AList.update c (removeAll t ms) cs)) =
           filter (\<lambda>l. l \<noteq> (m, c, t)) (module_leaves m cs)"
proof -
  let ?P = "\<lambda>l. l \<noteq> (m, c, t)"
  from alist_split_distinct [OF d c] obtain pre post
    where t: "cs = pre @ (c, ms) # post" and pre: "c \<notin> fst ` set pre"
      and post: "c \<notin> fst ` set post" by blast
  have fp: "filter ?P (module_leaves m pre) = module_leaves m pre"
    "filter ?P (module_leaves m post) = module_leaves m post"
    using pre post by (auto intro!: filter_module_leaves_other)
  have mid: "map (\<lambda>t. (m, c, t)) (removeAll t ms) = filter ?P (map (\<lambda>t. (m, c, t)) ms)"
    by (induction ms) auto
  show "module_leaves m (AList.update c (removeAll t ms) cs) = filter ?P (module_leaves m cs)"
    using t pre fp mid by (simp add: update_at)
  show "module_leaves m (AList.delete c (AList.update c (removeAll t ms) cs)) =
           filter ?P (module_leaves m cs)" if "removeAll t ms = []"
    using t pre post fp mid that by (simp add: update_at delete_at)
qed

lemma in_set_update: "x \<in> set (AList.update k v al) \<Longrightarrow> x = (k, v) \<or> x \<in> set al"
  by (induction al) (auto split: if_splits)

lemma in_set_delete: "x \<in> set (AList.delete k al) \<Longrightarrow> x \<in> set al \<and> fst x \<noteq> k"
  by (auto simp: AList.delete_eq)

lemma wf_classes_update:
  "wf_classes cs \<Longrightarrow> distinct ms \<Longrightarrow> wf_classes (AList.update c ms cs)"
  unfolding wf_classes_def list_all_iff
  by (auto simp: AList.distinct_update dest: in_set_update)

lemma wf_classes_delete: "wf_classes cs \<Longrightarrow> wf_classes (AList.delete c cs)"
  unfolding wf_classes_def list_all_iff
  by (auto simp: AList.distinct_delete dest: in_set_delete)

lemma wf_tree_update:
  "wf_tree tree \<Longrightarrow> wf_classes cs \<Longrightarrow> wf_tree (AList.update m cs tree)"
  unfolding wf_tree_def list_all_iff
  by (auto simp: AList.distinct_update dest: in_set_update)

lemma wf_tree_delete: "wf_tree tree \<Longrightarrow> wf_tree (AList.delete m tree)"
  unfolding wf_tree_def list_all_iff
  by (auto simp: AList.distinct_delete dest: in_set_delete)

lemma wf_tree_lookup: "wf_tree tree \<Longrightarrow> map_of tree m = Some cs \<Longrightarrow> wf_classes cs"
  unfolding wf_tree_def list_all_iff by (auto dest: map_of_SomeD)

lemma wf_classes_lookup: "wf_classes cs \<Longrightarrow> map_of cs c = Some ms \<Longrightarrow> distinct ms"
  unfolding wf_classes_def list_all_iff by (auto dest: map_of_SomeD)

lemma has_module_map_of: "has_module tree m \<longleftrightarrow> map_of tree m \<noteq> None"
  by (simp add: has_module_def map_of_eq_None_iff)

lemma has_class_map_of:
  "distinct (map fst tree) \<Longrightarrow>
   has_class tree m c \<longleftrightarrow> (\<exists>cs. map_of tree m = Some cs \<and> map_of cs c \<noteq> None)"
  unfolding has_class_def
  by (auto simp: map_of_eq_None_iff dest: map_of_SomeD)

lemma has_method_map_of:
  "wf_tree tree \<Longrightarrow>
   has_method tree m c t \<longleftrightarrow>
     (\<exists>cs ms. map_of tree m = Some cs \<and> map_of cs c = Some ms \<and> t \<in> set ms)"
  unfolding has_method_def in_leaves wf_tree_def wf_classes_def list_all_iff
  by (fastforce dest: map_of_SomeD)

lemma has_class_append:
  "has_class (xs @ ys) m c \<longleftrightarrow> has_class xs m c \<or> has_class ys m c"
  by (auto simp: has_class_def)

lemma has_class_Cons:
  "has_class ((m', cs) # tree) m c \<longleftrightarrow> (m' = m \<and> c \<in> fst ` set cs) \<or> has_class tree m c"
  by (auto simp: has_class_def)

lemma has_class_Nil: "\<not> has_class [] m c"
  by (simp add: has_class_def)

lemma has_class_module: "has_class tree m c \<Longrightarrow> m \<in> fst ` set tree"
  by (force simp: has_class_def)

lemma has_class_del_cls:
  assumes d: "distinct (map fst tree)" and m: "map_of tree m = Some cs"
  shows "has_class (AList.update m (AList.delete c cs) tree) m' c' \<longleftrightarrow>
           has_class tree m' c' \<and> \<not> (m' = m \<and> c' = c)"
    and "AList.delete c cs = [] \<Longrightarrow>
         has_class (AList.delete m (AList.update m (AList.delete c cs) tree)) m' c' \<longleftrightarrow>
           has_class tree m' c' \<and> \<not> (m' = m \<and> c' = c)"
proof -
  from alist_split_distinct [OF d m] obtain pre post
    where t: "tree = pre @ (m, cs) # post" and pre: "m \<notin> fst ` set pre"
      and post: "m \<notin> fst ` set post" by blast
  have no: "\<not> has_class pre m x" "\<not> has_class post m x" for x
    using pre post has_class_module by blast+
  have keys: "c' \<in> fst ` set (AList.delete c cs) \<longleftrightarrow> c' \<in> fst ` set cs \<and> c' \<noteq> c"
    by (auto simp: AList.delete_eq)
  show "has_class (AList.update m (AList.delete c cs) tree) m' c' \<longleftrightarrow>
           has_class tree m' c' \<and> \<not> (m' = m \<and> c' = c)"
    using t pre no keys by (auto simp: update_at has_class_append has_class_Cons)
  show "has_class (AList.delete m (AList.update m (AList.delete c cs) tree)) m' c' \<longleftrightarrow>
           has_class tree m' c' \<and> \<not> (m' = m \<and> c' = c)" if e: "AList.delete c cs = []"
  proof -
    have "c' \<in> fst ` set cs \<Longrightarrow> c' = c"
      using keys e by auto
    then show ?thesis
      using t pre post no by (auto simp: update_at delete_at has_class_append has_class_Cons)
  qed
qed

lemma del_cls_ok:
  assumes wf: "wf_tree tree" and m: "map_of tree m = Some cs" and c: "map_of cs c = Some ms"
  shows "fst (del_cls_in_name_tree tree m c) = Inr ()"
    and "leaves (snd (del_cls_in_name_tree tree m c)) =
           filter (\<lambda>l. \<not> (fst l = m \<and> fst (snd l) = c)) (leaves tree)"
    and "has_class (snd (del_cls_in_name_tree tree m c)) m' c' \<longleftrightarrow>
           has_class tree m' c' \<and> \<not> (m' = m \<and> c' = c)"
    and "wf_tree (snd (del_cls_in_name_tree tree m c))"
proof -
  have d: "distinct (map fst tree)" using wf by (simp add: wf_tree_def)
  let ?cs1 = "AList.delete c cs"
  let ?t1 = "AList.update m ?cs1 tree"
  have r: "del_cls_in_name_tree tree m c =
             (Inr (), if ?cs1 = [] then AList.delete m ?t1 else ?t1)"
    using m c by (simp add: del_cls_in_name_tree_def)
  show "fst (del_cls_in_name_tree tree m c) = Inr ()" by (simp add: r)
  have P: "\<And>l. fst l \<noteq> m \<Longrightarrow> \<not> (fst l = m \<and> fst (snd l) = c)" by simp
  show "leaves (snd (del_cls_in_name_tree tree m c)) =
           filter (\<lambda>l. \<not> (fst l = m \<and> fst (snd l) = c)) (leaves tree)"
    using leaves_replace [OF d m module_leaves_delete [of m c cs] P] by (simp add: r)
  show "has_class (snd (del_cls_in_name_tree tree m c)) m' c' \<longleftrightarrow>
           has_class tree m' c' \<and> \<not> (m' = m \<and> c' = c)"
    using has_class_del_cls [OF d m, of c m' c'] by (simp add: r)
  have "wf_classes ?cs1" using wf m by (simp add: wf_tree_lookup wf_classes_delete)
  then have "wf_tree ?t1" using wf by (rule wf_tree_update [rotated])
  then have "wf_tree (AList.delete m ?t1)" "wf_tree ?t1" by (simp_all add: wf_tree_delete)
  then show "wf_tree (snd (del_cls_in_name_tree tree m c))"
    unfolding r by (simp only: snd_conv split: if_split) blast
qed

lemma del_mth_ok:
  assumes wf: "wf_tree tree" and m: "map_of tree m = Some cs" and c: "map_of cs c = Some ms"
    and t: "t \<in> set ms"
  shows "fst (del_mth_in_name_tree tree m c t) = Inr ()"
    and "leaves (snd (del_mth_in_name_tree tree m c t)) =
           filter (\<lambda>l. l \<noteq> (m, c, t)) (leaves tree)"
    and "wf_tree (snd (del_mth_in_name_tree tree m c t))"
proof -
  have d: "distinct (map fst tree)" using wf by (simp add: wf_tree_def)
  have wcs: "wf_classes cs" using wf m by (rule wf_tree_lookup)
  then have dc: "distinct (map fst cs)" by (simp add: wf_classes_def)
  have dms: "distinct ms" using wcs c by (rule wf_classes_lookup)
  let ?ms1 = "removeAll t ms"
  let ?cs1 = "AList.update c ?ms1 cs"
  let ?cs2 = "if ?ms1 = [] then AList.delete c ?cs1 else ?cs1"
  let ?t1 = "AList.update m ?cs2 tree"
  have r: "del_mth_in_name_tree tree m c t =
             (Inr (), if ?cs2 = [] then AList.delete m ?t1 else ?t1)"
    using m c t by (simp add: del_mth_in_name_tree_def Let_def)
  show "fst (del_mth_in_name_tree tree m c t) = Inr ()" by (simp add: r)
  have ml: "module_leaves m ?cs2 = filter (\<lambda>l. l \<noteq> (m, c, t)) (module_leaves m cs)"
    using module_leaves_remove(1) [OF dc c, of m t] module_leaves_remove(2) [OF dc c, of t m]
    by (cases "?ms1 = []") simp_all
  have P: "\<And>l. fst l \<noteq> m \<Longrightarrow> l \<noteq> (m, c, t)" by auto
  show "leaves (snd (del_mth_in_name_tree tree m c t)) =
           filter (\<lambda>l. l \<noteq> (m, c, t)) (leaves tree)"
    using leaves_replace [OF d m ml P] by (simp add: r)
  have "distinct ?ms1" using dms by (simp add: distinct_removeAll)
  then have "wf_classes ?cs2" using wcs by (simp add: wf_classes_update wf_classes_delete)
  then have "wf_tree ?t1" using wf by (rule wf_tree_update [rotated])
  then have "wf_tree (AList.delete m ?t1)" "wf_tree ?t1" by (simp_all add: wf_tree_delete)
  then show "wf_tree (snd (del_mth_in_name_tree tree m c t))"
    unfolding r by (simp only: snd_conv split: if_split) blast
qed

section \<open>Facts about building and flattening\<close>

lemma update_new: "k \<notin> fst ` set al \<Longrightarrow> AList.update k v al = al @ [(k, v)]"
  by (induction al) auto

lemma class_items_Nil: "class_items [] = []"
  by (simp add: class_items_def)

lemma class_items_Cons:
  "class_items ((name, obj) # content) =
     (case obj of Class ms \<Rightarrow> [(name, ms)] | Function \<Rightarrow> []) @ class_items content"
  by (simp add: class_items_def)

lemma in_class_items: "(c, ms) \<in> set (class_items content) \<longleftrightarrow> (c, Class ms) \<in> set content"
proof (induction content)
  case Nil
  show ?case by (simp add: class_items_Nil)
next
  case (Cons p content)
  obtain name obj where p: "p = (name, obj)" by (cases p)
  show ?case using Cons p by (cases obj) (auto simp: class_items_Cons)
qed

lemma class_items_keys: "fst ` set (class_items content) \<subseteq> fst ` set content"
proof
  fix c assume "c \<in> fst ` set (class_items content)"
  then obtain ms where "(c, ms) \<in> set (class_items content)" by auto
  then have "(c, Class ms) \<in> set content" by (simp add: in_class_items)
  then show "c \<in> fst ` set content" by force
qed

lemma get_classes_foldl:
  "distinct (map fst content) \<Longrightarrow> fst ` set acc \<inter> fst ` set content = {} \<Longrightarrow>
   foldl (\<lambda>classes (name, obj).
            case obj of Class methods \<Rightarrow> AList.update name methods classes
                      | Function \<Rightarrow> classes) acc content = acc @ class_items content"
proof (induction content arbitrary: acc)
  case Nil
  then show ?case by (simp add: class_items_Nil)
next
  case (Cons p content)
  obtain name obj where p: "p = (name, obj)" by (cases p)
  show ?case
  proof (cases obj)
    case (Class ms)
    have new: "name \<notin> fst ` set acc" using Cons.prems(2) p by auto
    have "fst ` set (acc @ [(name, ms)]) \<inter> fst ` set content = {}"
      using Cons.prems p by auto
    with Cons.IH [of "acc @ [(name, ms)]"] Cons.prems(1) p Class new
    show ?thesis by (simp add: update_new class_items_Cons)
  next
    case Function
    have "fst ` set acc \<inter> fst ` set content = {}" using Cons.prems(2) by auto
    with Cons.IH [of acc] Cons.prems(1) p Function
    show ?thesis by (simp add: class_items_Cons)
  qed
qed

lemma get_classes_of_module_distinct:
  "distinct (map fst content) \<Longrightarrow> get_classes_of_module content = class_items content"
  using get_classes_foldl [of content "[]"] by (simp add: get_classes_of_module_def)

lemma set_get_method_names_by_class:
  "set (get_method_names_by_class p ms) = {t \<in> fst ` set ms. startswith t p}"
  by (auto simp: get_method_names_by_class_def)

lemma set_foldl_set_add:
  "set (foldl (\<lambda>s x. set_add x s) s xs) = set s \<union> set xs"
  by (induction xs arbitrary: s) (auto simp: set_add_def)

lemma distinct_foldl_set_add:
  "distinct s \<Longrightarrow> distinct (foldl (\<lambda>s x. set_add x s) s xs)"
  by (induction xs arbitrary: s) (auto simp: set_add_def)

lemma wf_tree_Nil: "wf_tree []"
  by (simp add: wf_tree_def)

lemma wf_classes_Nil: "wf_classes []"
  by (simp add: wf_classes_def)

lemma wf_classes_lookup_or_Nil:
  "wf_tree tree \<Longrightarrow> wf_classes (case map_of tree m of None \<Rightarrow> [] | Some cs \<Rightarrow> cs)"
proof (cases "map_of tree m")
  case None
  then show ?thesis by (simp add: wf_classes_Nil)
next
  case (Some cs)
  assume "wf_tree tree"
  then have "wf_classes cs" using Some by (rule wf_tree_lookup)
  then show ?thesis using Some by simp
qed

lemma distinct_lookup_or_Nil:
  "wf_classes cs \<Longrightarrow> distinct (case map_of cs c of None \<Rightarrow> [] | Some ms \<Rightarrow> ms)"
proof (cases "map_of cs c")
  case None
  then show ?thesis by simp
next
  case (Some ms)
  assume "wf_classes cs"
  then have "distinct ms" using Some by (rule wf_classes_lookup)
  then show ?thesis using Some by simp
qed

lemma tree_add_methods_wf:
  assumes "wf_tree tree"
  shows "wf_tree (tree_add_methods m c ts tree)"
proof -
  let ?cs = "case map_of tree m of None \<Rightarrow> [] | Some cs \<Rightarrow> cs"
  let ?ms = "case map_of ?cs c of None \<Rightarrow> [] | Some ms \<Rightarrow> ms"
  have wcs: "wf_classes ?cs"
    using assms by (rule wf_classes_lookup_or_Nil)
  then have "distinct ?ms"
    by (rule distinct_lookup_or_Nil)
  then have "distinct (foldl (\<lambda>s x. set_add x s) ?ms ts)"
    by (rule distinct_foldl_set_add)
  with wcs have "wf_classes (AList.update c (foldl (\<lambda>s x. set_add x s) ?ms ts) ?cs)"
    by (rule wf_classes_update)
  with assms show ?thesis
    unfolding tree_add_methods_def Let_def by (rule wf_tree_update)
qed

lemma has_method_lookup:
  assumes wf: "wf_tree tree"
  shows "has_method tree m c t \<longleftrightarrow>
     t \<in> set (case map_of (case map_of tree m of None \<Rightarrow> [] | Some cs \<Rightarrow> cs) c of
                None \<Rightarrow> [] | Some ms \<Rightarrow> ms)"
  unfolding has_method_map_of [OF wf]
proof (cases "map_of tree m")
  case None
  then show "(\<exists>cs ms. map_of tree m = Some cs \<and> map_of cs c = Some ms \<and> t \<in> set ms) =
    (t \<in> set (case map_of (case map_of tree m of None \<Rightarrow> [] | Some cs \<Rightarrow> cs) c of
                None \<Rightarrow> [] | Some ms \<Rightarrow> ms))" by simp
next
  case (Some cs)
  then show "(\<exists>cs ms. map_of tree m = Some cs \<and> map_of cs c = Some ms \<and> t \<in> set ms) =
    (t \<in> set (case map_of (case map_of tree m of None \<Rightarrow> [] | Some cs \<Rightarrow> cs) c of
                None \<Rightarrow> [] | Some ms \<Rightarrow> ms))" by (cases "map_of cs c") auto
qed

lemma tree_add_methods_has_method:
  assumes wf: "wf_tree tree"
  shows "has_method (tree_add_methods m c ts tree) m' c' t' \<longleftrightarrow>
           has_method tree m' c' t' \<or> (m' = m \<and> c' = c \<and> t' \<in> set ts)"
proof -
  define cs where "cs = (case map_of tree m of None \<Rightarrow> [] | Some cs \<Rightarrow> cs)"
  define ms where "ms = (case map_of cs c of None \<Rightarrow> [] | Some ms \<Rightarrow> ms)"
  define ms' where "ms' = foldl (\<lambda>s x. set_add x s) ms ts"
  define tree' where "tree' = tree_add_methods m c ts tree"
  have wf': "wf_tree tree'"
    unfolding tree'_def using wf by (rule tree_add_methods_wf)
  have t: "map_of tree' = (map_of tree)(m \<mapsto> AList.update c ms' cs)"
    by (simp add: tree'_def tree_add_methods_def Let_def AList.update_conv' cs_def ms_def ms'_def)
  have c: "map_of (AList.update c ms' cs) = (map_of cs)(c \<mapsto> ms')"
    by (simp add: AList.update_conv')
  have s: "set ms' = set ms \<union> set ts" unfolding ms'_def by (rule set_foldl_set_add)
  have old: "has_method tree m c'' t' \<longleftrightarrow>
      t' \<in> set (case map_of cs c'' of None \<Rightarrow> [] | Some ms \<Rightarrow> ms)" for c''
    unfolding has_method_lookup [OF wf] cs_def ..
  have new: "has_method tree' m' c' t' \<longleftrightarrow>
      t' \<in> set (case map_of (case map_of tree' m' of None \<Rightarrow> [] | Some cs \<Rightarrow> cs) c' of
                None \<Rightarrow> [] | Some ms \<Rightarrow> ms)"
    by (rule has_method_lookup [OF wf'])
  show ?thesis
  proof (cases "m' = m")
    case False
    then have "map_of tree' m' = map_of tree m'" by (simp add: t)
    then show ?thesis
      unfolding tree'_def [symmetric] new has_method_lookup [OF wf] using False by simp
  next
    case True
    show ?thesis
    proof (cases "c' = c")
      case False
      then show ?thesis
        unfolding tree'_def [symmetric] new using True old [of c'] by (simp add: t c)
    next
      case c: True
      show ?thesis
        unfolding tree'_def [symmetric] new using True c old [of c] s
        by (simp add: t AList.update_conv' ms_def)
    qed
  qed
qed

lemma tree_add_methods_keys:
  "fst ` set (tree_add_methods m c ts tree) = insert m (fst ` set tree)"
  by (simp add: tree_add_methods_def Let_def AList.dom_update)

lemma build_classes_wf:
  "wf_tree tree \<Longrightarrow> wf_tree (build_classes p filt m classes tree)"
proof (induction classes arbitrary: tree)
  case Nil
  then show ?case by simp
next
  case (Cons a classes)
  obtain c ms where a: "a = (c, ms)" by (cases a)
  have "wf_tree (tree_add_methods m c (get_method_names_by_class p ms) tree)"
    using Cons.prems by (rule tree_add_methods_wf)
  with Cons show ?case by (simp add: a Let_def)
qed

lemma build_classes_has_method:
  "wf_tree tree \<Longrightarrow>
   has_method (build_classes p filt m classes tree) m' c' t' \<longleftrightarrow>
     has_method tree m' c' t' \<or>
     (m' = m \<and> (\<exists>ms. (c', ms) \<in> set classes \<and> \<not> filtered_out filt (join_dot [m, c']) \<and>
                      t' \<in> fst ` set ms \<and> startswith t' p))"
proof (induction classes arbitrary: tree)
  case Nil
  then show ?case by simp
next
  case (Cons a classes)
  obtain c ms where a: "a = (c, ms)" by (cases a)
  let ?ts = "get_method_names_by_class p ms"
  let ?t1 = "tree_add_methods m c ?ts tree"
  have ts: "t' \<in> set ?ts \<longleftrightarrow> t' \<in> fst ` set ms \<and> startswith t' p"
    by (simp add: set_get_method_names_by_class)
  have wf1: "wf_tree ?t1" using Cons.prems by (rule tree_add_methods_wf)
  show ?case
  proof (cases "filtered_out filt (join_dot [m, c])")
    case True
    then have "build_classes p filt m (a # classes) tree = build_classes p filt m classes tree"
      by (simp add: a)
    with Cons.IH [OF Cons.prems] True show ?thesis by (auto simp: a)
  next
    case nf: False
    show ?thesis
    proof (cases "?ts = []")
      case True
      then have e: "build_classes p filt m (a # classes) tree = build_classes p filt m classes tree"
        using nf by (simp add: a)
      from True have "\<not> (t' \<in> fst ` set ms \<and> startswith t' p)" using ts by simp
      with Cons.IH [OF Cons.prems] show ?thesis unfolding e by (auto simp: a)
    next
      case False
      then have e: "build_classes p filt m (a # classes) tree = build_classes p filt m classes ?t1"
        using nf by (simp add: a)
      show ?thesis
        unfolding e Cons.IH [OF wf1] tree_add_methods_has_method [OF Cons.prems]
        using nf ts by (auto simp: a)
    qed
  qed
qed

lemma build_classes_keys:
  "fst ` set (build_classes p filt m classes tree) \<subseteq> insert m (fst ` set tree)"
proof (induction classes arbitrary: tree)
  case Nil
  then show ?case by auto
next
  case (Cons a classes)
  obtain c ms where a: "a = (c, ms)" by (cases a)
  have "fst ` set (build_classes p filt m classes (tree_add_methods m c ts tree))
          \<subseteq> insert m (fst ` set tree)" for ts
    using Cons.IH [of "tree_add_methods m c ts tree"] by (simp add: tree_add_methods_keys)
  with Cons.IH [of tree] show ?case by (simp add: a Let_def)
qed

lemma build_modules_wf:
  "wf_tree tree \<Longrightarrow> wf_tree (snd (build_modules rm p pkg filt mods tree))"
proof (induction mods arbitrary: tree)
  case Nil
  then show ?case by simp
next
  case (Cons m mods)
  show ?case
  proof (cases "inspect_module rm pkg m")
    case (Inl e)
    then show ?thesis using Cons.prems by simp
  next
    case (Inr content)
    have "wf_tree (build_classes p filt m (get_classes_of_module content) tree)"
      using Cons.prems by (rule build_classes_wf)
    with Cons Inr show ?thesis by (simp add: Let_def)
  qed
qed

lemma build_modules_keys:
  "fst ` set (snd (build_modules rm p pkg filt mods tree)) \<subseteq> set mods \<union> fst ` set tree"
proof (induction mods arbitrary: tree)
  case Nil
  then show ?case by simp
next
  case (Cons m mods)
  show ?case
  proof (cases "inspect_module rm pkg m")
    case (Inl e)
    then show ?thesis by auto
  next
    case (Inr content)
    have "fst ` set (snd (build_modules rm p pkg filt mods
             (build_classes p filt m (get_classes_of_module content) tree)))
          \<subseteq> set (m # mods) \<union> fst ` set tree"
      using Cons.IH [of "build_classes p filt m (get_classes_of_module content) tree"]
        build_classes_keys [of p filt m "get_classes_of_module content" tree] by auto
    moreover have "fst ` set (snd (build_modules rm p pkg filt mods tree))
          \<subseteq> set (m # mods) \<union> fst ` set tree"
      using Cons.IH [of tree] by auto
    ultimately show ?thesis using Inr by (simp add: Let_def)
  qed
qed

lemma build_modules_ok:
  assumes "\<forall>m\<in>set mods. \<exists>content. inspect_module rm pkg m = Inr content"
  shows "fst (build_modules rm p pkg filt mods tree) = Inr ()"
  using assms
proof (induction mods arbitrary: tree)
  case Nil
  then show ?case by simp
next
  case (Cons m mods)
  then obtain content where c: "inspect_module rm pkg m = Inr content" by auto
  from Cons have "fst (build_modules rm p pkg filt mods t) = Inr ()" for t by simp
  then show ?case by (simp add: c Let_def)
qed

lemma build_modules_has_method:
  assumes "\<forall>m\<in>set mods. \<exists>content. inspect_module rm pkg m = Inr content \<and>
             distinct (map fst content)"
    and "wf_tree tree"
  shows "has_method (snd (build_modules rm p pkg filt mods tree)) m' c' t' \<longleftrightarrow>
     has_method tree m' c' t' \<or>
     (m' \<in> set mods \<and>
      (\<exists>content ms. inspect_module rm pkg m' = Inr content \<and> (c', Class ms) \<in> set content \<and>
          \<not> filtered_out filt (join_dot [m', c']) \<and> t' \<in> fst ` set ms \<and> startswith t' p))"
  using assms
proof (induction mods arbitrary: tree)
  case Nil
  then show ?case by simp
next
  case (Cons m mods)
  then obtain content where c: "inspect_module rm pkg m = Inr content"
    and d: "distinct (map fst content)" by auto
  have rest: "\<forall>m\<in>set mods. \<exists>content. inspect_module rm pkg m = Inr content \<and>
             distinct (map fst content)" using Cons.prems(1) by simp
  let ?cl = "get_classes_of_module content"
  let ?t1 = "build_classes p filt m ?cl tree"
  have cl: "(c', ms) \<in> set ?cl \<longleftrightarrow> (c', Class ms) \<in> set content" for ms
    using d by (simp add: get_classes_of_module_distinct in_class_items)
  have wf1: "wf_tree ?t1" using Cons.prems(2) by (rule build_classes_wf)
  have e: "snd (build_modules rm p pkg filt (m # mods) tree) =
             snd (build_modules rm p pkg filt mods ?t1)"
    by (simp add: c Let_def)
  have step: "has_method ?t1 m' c' t' \<longleftrightarrow>
     has_method tree m' c' t' \<or>
     (m' = m \<and> (\<exists>ms. (c', Class ms) \<in> set content \<and> \<not> filtered_out filt (join_dot [m, c']) \<and>
                      t' \<in> fst ` set ms \<and> startswith t' p))"
    unfolding build_classes_has_method [OF Cons.prems(2)] cl ..
  show ?case
    unfolding e Cons.IH [OF rest wf1] step using c by auto
qed

lemma module_leaves_fst: "l \<in> set (module_leaves m cs) \<Longrightarrow> fst l = m"
  by (cases l) (simp add: in_module_leaves)

lemma module_leaves_cls: "l \<in> set (module_leaves m cs) \<Longrightarrow> fst (snd l) \<in> fst ` set cs"
  by (cases l) (force simp: in_module_leaves)

lemma leaves_fst: "l \<in> set (leaves tree) \<Longrightarrow> fst l \<in> fst ` set tree"
  by (cases l) (force simp: in_leaves)

lemma distinct_module_leaves: "wf_classes cs \<Longrightarrow> distinct (module_leaves m cs)"
proof (induction cs)
  case Nil
  show ?case by simp
next
  case (Cons a cs)
  obtain c ms where a: "a = (c, ms)" by (cases a)
  from Cons.prems have wf: "wf_classes cs" and dms: "distinct ms" and c: "c \<notin> fst ` set cs"
    by (auto simp: wf_classes_def a)
  have "distinct (map (\<lambda>t. (m, c, t)) ms)"
    using dms by (simp add: distinct_map inj_on_def)
  moreover have "set (map (\<lambda>t. (m, c, t)) ms) \<inter> set (module_leaves m cs) = {}"
    using c module_leaves_cls [of _ m cs] by fastforce
  ultimately show ?case using Cons.IH [OF wf] by (simp add: a)
qed

lemma distinct_leaves: "wf_tree tree \<Longrightarrow> distinct (leaves tree)"
proof (induction tree)
  case Nil
  show ?case by simp
next
  case (Cons a tree)
  obtain m cs where a: "a = (m, cs)" by (cases a)
  from Cons.prems have wf: "wf_tree tree" and wcs: "wf_classes cs" and m: "m \<notin> fst ` set tree"
    by (auto simp: wf_tree_def a)
  have "set (module_leaves m cs) \<inter> set (leaves tree) = {}"
    using m module_leaves_fst [of _ m cs] leaves_fst [of _ tree] by fastforce
  then show ?case using Cons.IH [OF wf] distinct_module_leaves [OF wcs] by (simp add: a)
qed

lemma dfs_set_eq:
  "get_dotted_names_dfs_set sub prefix acc = acc @ map (dotted_name prefix) sub"
  by (induction sub arbitrary: acc) auto

lemma dfs_cls_eq:
  "get_dotted_names_dfs_cls cs prefix acc =
     acc @ concat (map (\<lambda>(c, ms). map (dotted_name (Some (dotted_name prefix c))) ms) cs)"
  by (induction cs arbitrary: acc) (auto simp: dfs_set_eq)

lemma dfs_eq:
  "get_dotted_names_dfs tree prefix acc =
     acc @ concat (map (\<lambda>(m, cs).
        concat (map (\<lambda>(c, ms).
          map (dotted_name (Some (dotted_name (Some (dotted_name prefix m)) c))) ms) cs)) tree)"
  by (induction tree arbitrary: acc) (auto simp: dfs_cls_eq)

lemma dotted_name_full:
  "truthy pkg \<or> m \<noteq> [] \<Longrightarrow>
   dotted_name (Some (dotted_name (Some (dotted_name pkg m)) c)) t = full_name pkg (m, c, t)"
  by (cases pkg) (auto simp: dotted_name_def truthy_def full_name_def)

lemma module_names_full:
  "truthy pkg \<or> m \<noteq> [] \<Longrightarrow>
   concat (map (\<lambda>(c, ms).
          map (dotted_name (Some (dotted_name (Some (dotted_name pkg m)) c))) ms) cs) =
   map (full_name pkg) (module_leaves m cs)"
  by (induction cs) (auto simp: dotted_name_full)

lemma flatten_leaves:
  "truthy pkg \<or> [] \<notin> fst ` set tree \<Longrightarrow>
   get_full_method_names_from_tree tree pkg = map (full_name pkg) (leaves tree)"
proof (induction tree)
  case Nil
  show ?case by (simp add: get_full_method_names_from_tree_def)
next
  case (Cons a tree)
  obtain m cs where a: "a = (m, cs)" by (cases a)
  from Cons.prems have m: "truthy pkg \<or> m \<noteq> []" and r: "truthy pkg \<or> [] \<notin> fst ` set tree"
    by (auto simp: a)
  from Cons.IH [OF r] module_names_full [OF m, of cs]
  show ?case by (simp add: get_full_method_names_from_tree_def dfs_eq a)
qed

lemma no_empty_branch_Nil: "no_empty_branch []"
  by (simp add: no_empty_branch_def)

lemma no_empty_branch_update:
  "no_empty_branch tree \<Longrightarrow> cs \<noteq> [] \<Longrightarrow> list_all (\<lambda>(c, ms). ms \<noteq> []) cs \<Longrightarrow>
   no_empty_branch (AList.update m cs tree)"
  unfolding no_empty_branch_def list_all_iff
  by (auto dest!: in_set_update)

lemma no_empty_branch_delete:
  "no_empty_branch tree \<Longrightarrow> no_empty_branch (AList.delete m tree)"
  unfolding no_empty_branch_def list_all_iff
  by (auto dest!: in_set_delete)

lemma no_empty_branch_delete_update:
  "no_empty_branch tree \<Longrightarrow> no_empty_branch (AList.delete m (AList.update m cs tree))"
  by (simp add: AList.delete_update_same no_empty_branch_delete)

lemma no_empty_branch_lookup:
  "no_empty_branch tree \<Longrightarrow> map_of tree m = Some cs \<Longrightarrow> list_all (\<lambda>(c, ms). ms \<noteq> []) cs"
  unfolding no_empty_branch_def list_all_iff by (auto dest!: map_of_SomeD)

lemma nonempty_classes_update:
  "list_all (\<lambda>(c, ms). ms \<noteq> []) cs \<Longrightarrow> ms' \<noteq> [] \<Longrightarrow>
   list_all (\<lambda>(c, ms). ms \<noteq> []) (AList.update c' ms' cs)"
  unfolding list_all_iff by (auto dest!: in_set_update)

lemma nonempty_classes_delete:
  "list_all (\<lambda>(c, ms). ms \<noteq> []) cs \<Longrightarrow> list_all (\<lambda>(c, ms). ms \<noteq> []) (AList.delete c' cs)"
  unfolding list_all_iff by (auto dest!: in_set_delete)

lemma foldl_set_add_nonempty: "ts \<noteq> [] \<Longrightarrow> foldl (\<lambda>s x. set_add x s) s ts \<noteq> []"
proof -
  assume "ts \<noteq> []"
  then have "set (foldl (\<lambda>s x. set_add x s) s ts) \<noteq> {}"
    by (simp add: set_foldl_set_add)
  then show ?thesis by auto
qed

lemma tree_add_methods_no_empty:
  assumes ne: "no_empty_branch tree" and ts: "ts \<noteq> []"
  shows "no_empty_branch (tree_add_methods m c ts tree)"
proof -
  define cs where "cs = (case map_of tree m of None \<Rightarrow> [] | Some cs \<Rightarrow> cs)"
  define ms where "ms = (case map_of cs c of None \<Rightarrow> [] | Some ms \<Rightarrow> ms)"
  have "list_all (\<lambda>(c, ms). ms \<noteq> []) cs"
  proof (cases "map_of tree m")
    case None
    then show ?thesis by (simp add: cs_def)
  next
    case (Some x)
    with ne show ?thesis by (simp add: cs_def no_empty_branch_lookup)
  qed
  then have "list_all (\<lambda>(c, ms). ms \<noteq> []) (AList.update c (foldl (\<lambda>s x. set_add x s) ms ts) cs)"
    using ts by (simp add: nonempty_classes_update foldl_set_add_nonempty)
  with ne have "no_empty_branch
      (AList.update m (AList.update c (foldl (\<lambda>s x. set_add x s) ms ts) cs) tree)"
    by (simp add: no_empty_branch_update)
  then show ?thesis by (simp add: tree_add_methods_def Let_def cs_def ms_def)
qed

lemma build_classes_no_empty:
  "no_empty_branch tree \<Longrightarrow> no_empty_branch (build_classes p filt m classes tree)"
proof (induction classes arbitrary: tree)
  case Nil
  then show ?case by simp
next
  case (Cons a classes)
  obtain c ms where a: "a = (c, ms)" by (cases a)
  have "get_method_names_by_class p ms \<noteq> [] \<Longrightarrow>
        no_empty_branch (tree_add_methods m c (get_method_names_by_class p ms) tree)"
    using Cons.prems by (rule tree_add_methods_no_empty)
  with Cons show ?case by (simp add: a Let_def)
qed

lemma build_modules_no_empty:
  "no_empty_branch tree \<Longrightarrow> no_empty_branch (snd (build_modules rm p pkg filt mods tree))"
proof (induction mods arbitrary: tree)
  case Nil
  then show ?case by simp
next
  case (Cons m mods)
  show ?case
  proof (cases "inspect_module rm pkg m")
    case (Inl e)
    then show ?thesis using Cons.prems by simp
  next
    case (Inr content)
    have "no_empty_branch (build_classes p filt m (get_classes_of_module content) tree)"
      using Cons.prems by (rule build_classes_no_empty)
    with Cons Inr show ?thesis by (simp add: Let_def)
  qed
qed

lemma del_cls_no_empty:
  assumes "no_empty_branch tree"
  shows "no_empty_branch (snd (del_cls_in_name_tree tree m c))"
proof (cases "map_of tree m")
  case None
  with assms show ?thesis by (simp add: del_cls_in_name_tree_def)
next
  case (Some cs)
  show ?thesis
  proof (cases "map_of cs c")
    case None
    with Some assms show ?thesis by (simp add: del_cls_in_name_tree_def)
  next
    case (Some ms)
    let ?cs1 = "AList.delete c cs"
    have r: "snd (del_cls_in_name_tree tree m c) =
       (if ?cs1 = [] then AList.delete m (AList.update m ?cs1 tree) else AList.update m ?cs1 tree)"
      using \<open>map_of tree m = Some cs\<close> Some by (simp add: del_cls_in_name_tree_def)
    have "list_all (\<lambda>(c, ms). ms \<noteq> []) ?cs1"
      using assms \<open>map_of tree m = Some cs\<close>
      by (simp add: no_empty_branch_lookup nonempty_classes_delete)
    then have "?cs1 \<noteq> [] \<Longrightarrow> no_empty_branch (AList.update m ?cs1 tree)"
      using assms by (simp add: no_empty_branch_update)
    moreover have "no_empty_branch (AList.delete m (AList.update m ?cs1 tree))"
      using assms by (rule no_empty_branch_delete_update)
    ultimately show ?thesis unfolding r by (cases "AList.delete c cs = []") simp_all
  qed
qed

lemma del_mth_no_empty:
  assumes "no_empty_branch tree"
  shows "no_empty_branch (snd (del_mth_in_name_tree tree m c t))"
proof (cases "map_of tree m")
  case None
  with assms show ?thesis by (simp add: del_mth_in_name_tree_def)
next
  case (Some cs)
  note m = this
  show ?thesis
  proof (cases "map_of cs c")
    case None
    with m assms show ?thesis by (simp add: del_mth_in_name_tree_def)
  next
    case (Some ms)
    show ?thesis
    proof (cases "t \<in> set ms")
      case False
      with m Some assms show ?thesis by (simp add: del_mth_in_name_tree_def)
    next
      case True
      define cs2 where "cs2 = (if removeAll t ms = []
          then AList.delete c (AList.update c (removeAll t ms) cs)
          else AList.update c (removeAll t ms) cs)"
      have r: "snd (del_mth_in_name_tree tree m c t) =
         (if cs2 = [] then AList.delete m (AList.update m cs2 tree)
          else AList.update m cs2 tree)"
        using m Some True by (simp add: del_mth_in_name_tree_def Let_def cs2_def)
      have cs: "list_all (\<lambda>(c, ms). ms \<noteq> []) cs"
        using assms m by (rule no_empty_branch_lookup)
      have "list_all (\<lambda>(c, ms). ms \<noteq> []) cs2"
      proof (cases "removeAll t ms = []")
        case True
        have "list_all (\<lambda>(c, ms). ms \<noteq> []) (AList.delete c cs)"
          using cs by (rule nonempty_classes_delete)
        then show ?thesis using True by (simp add: cs2_def AList.delete_update_same)
      next
        case False
        then show ?thesis using cs by (simp add: cs2_def nonempty_classes_update)
      qed
      then have a: "cs2 \<noteq> [] \<Longrightarrow> no_empty_branch (AList.update m cs2 tree)"
        using assms by (simp add: no_empty_branch_update)
      have b: "no_empty_branch (AList.delete m (AList.update m cs2 tree))"
        using assms by (rule no_empty_branch_delete_update)
      show ?thesis
      proof (cases "cs2 = []")
        case True
        then show ?thesis using b by (simp add: r)
      next
        case False
        then show ?thesis using a by (simp add: r)
      qed
    qed
  qed
qed

lemma del_cls_wf: "wf_tree tree \<Longrightarrow> wf_tree (snd (del_cls_in_name_tree tree m c))"
proof (cases "map_of tree m")
  case None
  assume "wf_tree tree"
  with None show ?thesis by (simp add: del_cls_in_name_tree_def)
next
  case (Some cs)
  assume wf: "wf_tree tree"
  show ?thesis
  proof (cases "map_of cs c")
    case None
    with Some wf show ?thesis by (simp add: del_cls_in_name_tree_def)
  next
    case (Some ms)
    with wf \<open>map_of tree m = Some cs\<close> show ?thesis by (rule del_cls_ok(4))
  qed
qed

lemma del_mth_wf: "wf_tree tree \<Longrightarrow> wf_tree (snd (del_mth_in_name_tree tree m c t))"
proof (cases "map_of tree m")
  case None
  assume "wf_tree tree"
  with None show ?thesis by (simp add: del_mth_in_name_tree_def)
next
  case (Some cs)
  assume wf: "wf_tree tree"
  note m = Some
  show ?thesis
  proof (cases "map_of cs c")
    case None
    with m wf show ?thesis by (simp add: del_mth_in_name_tree_def)
  next
    case (Some ms)
    show ?thesis
    proof (cases "t \<in> set ms")
      case True
      with wf m Some show ?thesis by (rule del_mth_ok(3))
    next
      case False
      with wf m Some show ?thesis by (simp add: del_mth_in_name_tree_def)
    qed
  qed
qed

section \<open>C9: a failed deletion changes nothing\<close>

text \<open>
  C9: when \<open>_del_cls_in_name_tree\<close> or \<open>_del_mth_in_name_tree\<close> raises, the tree in
  \<open>self._name_tree\<close> afterwards is the tree from before the call.
\<close>

theorem delete_failure_keeps_tree:
  "(fst (del_cls_in_name_tree tree m c) = Inl e \<longrightarrow>
      snd (del_cls_in_name_tree tree m c) = tree) \<and>
   (fst (del_mth_in_name_tree tree' m' c' t') = Inl e' \<longrightarrow>
      snd (del_mth_in_name_tree tree' m' c' t') = tree')"
  by (auto simp: del_cls_in_name_tree_def del_mth_in_name_tree_def Let_def
           split: option.splits if_splits)

theorem delete_failure_keeps_tree_witness:
  "fst (del_cls_in_name_tree [(''m'', [(''C'', [''test_a''])])] ''m'' ''D'') =
     Inl (ValueError (NotFoundIn ''m.D'' ''D'' ''m'')) \<and>
   snd (del_cls_in_name_tree [(''m'', [(''C'', [''test_a''])])] ''m'' ''D'') =
     [(''m'', [(''C'', [''test_a''])])] \<and>
   fst (del_mth_in_name_tree [(''m'', [(''C'', [''test_a''])])] ''m'' ''C'' ''test_b'') =
     Inl (ValueError (NotFoundIn ''m.C.test_b'' ''test_b'' ''C'')) \<and>
   snd (del_mth_in_name_tree [(''m'', [(''C'', [''test_a''])])] ''m'' ''C'' ''test_b'') =
     [(''m'', [(''C'', [''test_a''])])]"
proof -
  have c: "fst (del_cls_in_name_tree [(''m'', [(''C'', [''test_a''])])] ''m'' ''D'') =
     Inl (ValueError (NotFoundIn ''m.D'' ''D'' ''m''))"
    by (simp add: del_cls_in_name_tree_def)
  have t: "fst (del_mth_in_name_tree [(''m'', [(''C'', [''test_a''])])] ''m'' ''C'' ''test_b'') =
     Inl (ValueError (NotFoundIn ''m.C.test_b'' ''test_b'' ''C''))"
    by (simp add: del_mth_in_name_tree_def)
  from delete_failure_keeps_tree
    [of "[(''m'', [(''C'', [''test_a''])])]" "''m''" "''D''"
        "ValueError (NotFoundIn ''m.D'' ''D'' ''m'')"
        "[(''m'', [(''C'', [''test_a''])])]" "''m''" "''C''" "''test_b''"
        "ValueError (NotFoundIn ''m.C.test_b'' ''test_b'' ''C'')"] c t
  show ?thesis by blast
qed


section \<open>C2: what a deletion reports and what it removes\<close>

text \<open>
  C2: on a well-formed tree, a deletion whose module is not in the tree raises the error
  that names the module; one whose module is there but whose class is not raises the error
  that names the class (and the module searched); \<open>_del_mth_in_name_tree\<close> with the class
  there but not the method raises the error that names the method (and the class
  searched). Each error also carries the full dotted name of the exclusion, and the tree
  is unchanged. When the class is in the tree, \<open>_del_cls_in_name_tree\<close> succeeds, the
  leaves afterwards are the leaves from before without those of that class, and the
  classes afterwards are the classes from before without that one. When the method is in
  the tree, \<open>_del_mth_in_name_tree\<close> succeeds and the leaves afterwards are the leaves from
  before without that one.
\<close>

theorem delete_names_missing_level:
  assumes "wf_tree tree"
  shows
  "(\<not> has_module tree m \<longrightarrow>
      del_cls_in_name_tree tree m c =
        (Inl (ValueError (NotInModules (join_dot [m, c]) m)), tree) \<and>
      del_mth_in_name_tree tree m c t =
        (Inl (ValueError (NotInModules (join_dot [m, c, t]) m)), tree)) \<and>
   (has_module tree m \<and> \<not> has_class tree m c \<longrightarrow>
      del_cls_in_name_tree tree m c =
        (Inl (ValueError (NotFoundIn (join_dot [m, c]) c m)), tree) \<and>
      del_mth_in_name_tree tree m c t =
        (Inl (ValueError (NotFoundIn (join_dot [m, c, t]) c m)), tree)) \<and>
   (has_class tree m c \<and> \<not> has_method tree m c t \<longrightarrow>
      del_mth_in_name_tree tree m c t =
        (Inl (ValueError (NotFoundIn (join_dot [m, c, t]) t c)), tree)) \<and>
   (has_class tree m c \<longrightarrow>
      fst (del_cls_in_name_tree tree m c) = Inr () \<and>
      leaves (snd (del_cls_in_name_tree tree m c)) =
        filter (\<lambda>l. \<not> (fst l = m \<and> fst (snd l) = c)) (leaves tree) \<and>
      (\<forall>m' c'. has_class (snd (del_cls_in_name_tree tree m c)) m' c' \<longleftrightarrow>
                 has_class tree m' c' \<and> \<not> (m' = m \<and> c' = c))) \<and>
   (has_method tree m c t \<longrightarrow>
      fst (del_mth_in_name_tree tree m c t) = Inr () \<and>
      leaves (snd (del_mth_in_name_tree tree m c t)) =
        filter (\<lambda>l. l \<noteq> (m, c, t)) (leaves tree))"
proof -
  have d: "distinct (map fst tree)" using assms by (simp add: wf_tree_def)
  note hc = has_class_map_of [OF d]
  note hm = has_method_map_of [OF assms]
  have 1: "\<not> has_module tree m \<longrightarrow>
      del_cls_in_name_tree tree m c =
        (Inl (ValueError (NotInModules (join_dot [m, c]) m)), tree) \<and>
      del_mth_in_name_tree tree m c t =
        (Inl (ValueError (NotInModules (join_dot [m, c, t]) m)), tree)"
    by (simp add: has_module_map_of del_cls_in_name_tree_def del_mth_in_name_tree_def)
  have 2: "has_module tree m \<and> \<not> has_class tree m c \<longrightarrow>
      del_cls_in_name_tree tree m c =
        (Inl (ValueError (NotFoundIn (join_dot [m, c]) c m)), tree) \<and>
      del_mth_in_name_tree tree m c t =
        (Inl (ValueError (NotFoundIn (join_dot [m, c, t]) c m)), tree)"
    by (auto simp: has_module_map_of hc del_cls_in_name_tree_def del_mth_in_name_tree_def)
  have 3: "has_class tree m c \<and> \<not> has_method tree m c t \<longrightarrow>
      del_mth_in_name_tree tree m c t =
        (Inl (ValueError (NotFoundIn (join_dot [m, c, t]) t c)), tree)"
    by (auto simp: hc hm del_mth_in_name_tree_def)
  have 4: "has_class tree m c \<longrightarrow>
      fst (del_cls_in_name_tree tree m c) = Inr () \<and>
      leaves (snd (del_cls_in_name_tree tree m c)) =
        filter (\<lambda>l. \<not> (fst l = m \<and> fst (snd l) = c)) (leaves tree) \<and>
      (\<forall>m' c'. has_class (snd (del_cls_in_name_tree tree m c)) m' c' \<longleftrightarrow>
                 has_class tree m' c' \<and> \<not> (m' = m \<and> c' = c))"
    using del_cls_ok(1,2,3) [OF assms] by (auto simp: hc)
  have 5: "has_method tree m c t \<longrightarrow>
      fst (del_mth_in_name_tree tree m c t) = Inr () \<and>
      leaves (snd (del_mth_in_name_tree tree m c t)) =
        filter (\<lambda>l. l \<noteq> (m, c, t)) (leaves tree)"
    using del_mth_ok(1,2) [OF assms] by (auto simp: hm)
  from 1 2 3 4 5 show ?thesis by blast
qed

theorem delete_names_missing_level_witness:
  "wf_tree example_tree \<and>
   del_cls_in_name_tree example_tree ''x'' ''C'' =
     (Inl (ValueError (NotInModules ''x.C'' ''x'')), example_tree) \<and>
   del_mth_in_name_tree example_tree ''m'' ''X'' ''test_a'' =
     (Inl (ValueError (NotFoundIn ''m.X.test_a'' ''X'' ''m'')), example_tree) \<and>
   del_mth_in_name_tree example_tree ''m'' ''C'' ''test_x'' =
     (Inl (ValueError (NotFoundIn ''m.C.test_x'' ''test_x'' ''C'')), example_tree) \<and>
   fst (del_cls_in_name_tree example_tree ''m'' ''C'') = Inr () \<and>
   leaves (snd (del_cls_in_name_tree example_tree ''m'' ''C'')) = [(''m'', ''D'', ''test_c'')] \<and>
   fst (del_mth_in_name_tree example_tree ''m'' ''C'' ''test_a'') = Inr () \<and>
   leaves (snd (del_mth_in_name_tree example_tree ''m'' ''C'' ''test_a'')) =
     [(''m'', ''C'', ''test_b''), (''m'', ''D'', ''test_c'')]"
proof -
  have wf: "wf_tree example_tree"
    by (simp add: wf_tree_def wf_classes_def)
  have l: "leaves example_tree =
      [(''m'', ''C'', ''test_a''), (''m'', ''C'', ''test_b''), (''m'', ''D'', ''test_c'')]"
    by (simp add: leaves_def module_leaves_def)
  have h1: "\<not> has_module example_tree ''x''"
    by (simp add: has_module_def)
  have h2: "has_module example_tree ''m'' \<and> \<not> has_class example_tree ''m'' ''X''"
    by (simp add: has_module_def has_class_def)
  have h3: "has_class example_tree ''m'' ''C'' \<and> \<not> has_method example_tree ''m'' ''C'' ''test_x''"
    by (simp add: has_class_def has_method_def l)
  have h5: "has_method example_tree ''m'' ''C'' ''test_a''"
    by (simp add: has_method_def l)
  from delete_names_missing_level [OF wf, of "''x''" "''C''" "''t''"] h1
  have r1: "del_cls_in_name_tree example_tree ''x'' ''C'' =
     (Inl (ValueError (NotInModules ''x.C'' ''x'')), example_tree)" by simp
  from delete_names_missing_level [OF wf, of "''m''" "''X''" "''test_a''"] h2
  have r2: "del_mth_in_name_tree example_tree ''m'' ''X'' ''test_a'' =
     (Inl (ValueError (NotFoundIn ''m.X.test_a'' ''X'' ''m'')), example_tree)" by simp
  from delete_names_missing_level [OF wf, of "''m''" "''C''" "''test_x''"] h3
  have r3: "del_mth_in_name_tree example_tree ''m'' ''C'' ''test_x'' =
     (Inl (ValueError (NotFoundIn ''m.C.test_x'' ''test_x'' ''C'')), example_tree)" by simp
  from delete_names_missing_level [OF wf, of "''m''" "''C''" "''test_a''"] h3 h5
  have r4: "fst (del_cls_in_name_tree example_tree ''m'' ''C'') = Inr () \<and>
   leaves (snd (del_cls_in_name_tree example_tree ''m'' ''C'')) = [(''m'', ''D'', ''test_c'')] \<and>
   fst (del_mth_in_name_tree example_tree ''m'' ''C'' ''test_a'') = Inr () \<and>
   leaves (snd (del_mth_in_name_tree example_tree ''m'' ''C'' ''test_a'')) =
     [(''m'', ''C'', ''test_b''), (''m'', ''D'', ''test_c'')]" by (simp add: l)
  from wf r1 r2 r3 r4 show ?thesis by blast
qed

section \<open>Facts about reachable trees and the examples\<close>

lemma reachable_wf: "reachable tree \<Longrightarrow> wf_tree tree"
proof (induction rule: reachable.induct)
  case (built rm p pkg mods filt)
  show ?case unfolding build_name_tree_def using wf_tree_Nil by (rule build_modules_wf)
next
  case (del_cls tree m c)
  then show ?case by (simp add: del_cls_wf)
next
  case (del_mth tree m c t)
  then show ?case by (simp add: del_mth_wf)
qed

lemma reachable_no_empty: "reachable tree \<Longrightarrow> no_empty_branch tree"
proof (induction rule: reachable.induct)
  case (built rm p pkg mods filt)
  show ?case unfolding build_name_tree_def
    using no_empty_branch_Nil by (rule build_modules_no_empty)
next
  case (del_cls tree m c)
  then show ?case by (simp add: del_cls_no_empty)
next
  case (del_mth tree m c t)
  then show ?case by (simp add: del_mth_no_empty)
qed

lemma example_build:
  "build_name_tree example_readmodule ''test'' None [''m''] None =
     (Inr (), [(''m'', [(''C'', [''test_a'', ''test_b''])])])"
  by (simp add: build_name_tree_def example_readmodule_def inspect_module_def truthy_def
      get_classes_of_module_def get_method_names_by_class_def startswith_def filtered_out_def
      tree_add_methods_def set_add_def)

lemma example_build_pkg:
  "build_name_tree example_readmodule ''test'' (Some ''pkg'') [''n''] None =
     (Inr (), [(''n'', [(''E'', [''test_z''])])])"
  by (simp add: build_name_tree_def example_readmodule_def inspect_module_def truthy_def
      get_classes_of_module_def get_method_names_by_class_def startswith_def filtered_out_def
      tree_add_methods_def set_add_def)

lemma image_triples: "f ` {(m, c, t). P m c t} = {f (m, c, t) | m c t. P m c t}"
proof (rule set_eqI)
  fix y
  show "y \<in> f ` {(m, c, t). P m c t} \<longleftrightarrow> y \<in> {f (m, c, t) | m c t. P m c t}"
  proof
    assume "y \<in> f ` {(m, c, t). P m c t}"
    then obtain l where l: "l \<in> {(m, c, t). P m c t}" and y: "y = f l" by blast
    obtain m c t where "l = (m, c, t)" by (cases l)
    with l y show "y \<in> {f (m, c, t) | m c t. P m c t}" by auto
  next
    assume "y \<in> {f (m, c, t) | m c t. P m c t}"
    then obtain m c t where "y = f (m, c, t)" "P m c t" by blast
    then have "(m, c, t) \<in> {(m, c, t). P m c t}" "y = f (m, c, t)" by simp_all
    then show "y \<in> f ` {(m, c, t). P m c t}" by (rule rev_image_eqI)
  qed
qed


section \<open>C3: no empty branch\<close>

text \<open>
  C3: in every tree that \<open>self._name_tree\<close> can hold (the tree left by a build, and the
  tree left by \<open>_del_cls_in_name_tree\<close> or \<open>_del_mth_in_name_tree\<close> applied to such a
  tree), every module entry has at least one class and every class entry has at least one
  method name.
\<close>

theorem name_tree_has_no_empty_branch:
  assumes "reachable tree"
  shows "\<forall>(m, cs) \<in> set tree. cs \<noteq> [] \<and> (\<forall>(c, ms) \<in> set cs. ms \<noteq> [])"
  using reachable_no_empty [OF assms]
  unfolding no_empty_branch_def list_all_iff by simp


theorem name_tree_has_no_empty_branch_witness:
  "reachable [(''m'', [(''C'', [''test_b''])])] \<and>
   no_empty_branch [(''m'', [(''C'', [''test_b''])])] \<and>
   reachable [] \<and> no_empty_branch []"
proof -
  have "reachable (snd (build_name_tree example_readmodule ''test'' None [''m''] None))"
    by (rule reachable.built)
  then have r0: "reachable [(''m'', [(''C'', [''test_a'', ''test_b''])])]"
    by (simp add: example_build)
  have "reachable (snd (del_mth_in_name_tree
      [(''m'', [(''C'', [''test_a'', ''test_b''])])] ''m'' ''C'' ''test_a''))"
    using r0 by (rule reachable.del_mth)
  then have r1: "reachable [(''m'', [(''C'', [''test_b''])])]"
    by (simp add: del_mth_in_name_tree_def)
  have "reachable (snd (del_cls_in_name_tree [(''m'', [(''C'', [''test_b''])])] ''m'' ''C''))"
    using r1 by (rule reachable.del_cls)
  then have r2: "reachable []"
    by (simp add: del_cls_in_name_tree_def)
  from name_tree_has_no_empty_branch [OF r1] name_tree_has_no_empty_branch [OF r2] r1 r2
  show ?thesis by (simp add: no_empty_branch_def)
qed


section \<open>C1: building, then flattening\<close>

text \<open>
  C1: let every module of \<open>mod_names\<close> be found by the inspection, its content a
  dictionary (each name once), and let no module name be the empty string unless a package
  is set. Then \<open>_build_name_tree\<close> without a class filter returns normally; flattening
  the tree gives the full name (\<open>package.module.class.method\<close>, or
  \<open>module.class.method\<close> without a package) of each leaf of the tree in turn, one name per
  leaf; no leaf occurs twice in the tree; and the leaves are exactly the paths
  \<open>(module, class, method)\<close> with the module in \<open>mod_names\<close>, the class a \<open>pyclbr.Class\<close>
  of its content and the method a key of the class's \<open>methods\<close> that starts with the
  method prefix. So the set of names returned is exactly the set of the full names of
  those methods.
\<close>

theorem build_then_flatten:
  assumes ok: "\<forall>m\<in>set mod_names. \<exists>content.
                 inspect_module readmodule_ex pkg_name m = Inr content \<and>
                 distinct (map fst content)"
    and ne: "truthy pkg_name \<or> [] \<notin> set mod_names"
  shows
    "fst (build_name_tree readmodule_ex method_prefix pkg_name mod_names None) = Inr () \<and>
     get_full_method_names_from_tree
         (snd (build_name_tree readmodule_ex method_prefix pkg_name mod_names None)) pkg_name =
       map (full_name pkg_name)
         (leaves (snd (build_name_tree readmodule_ex method_prefix pkg_name mod_names None))) \<and>
     distinct
       (leaves (snd (build_name_tree readmodule_ex method_prefix pkg_name mod_names None))) \<and>
     set (leaves (snd (build_name_tree readmodule_ex method_prefix pkg_name mod_names None))) =
       {(m, c, t). m \<in> set mod_names \<and>
          (\<exists>content ms. inspect_module readmodule_ex pkg_name m = Inr content \<and>
             (c, Class ms) \<in> set content \<and> t \<in> fst ` set ms \<and>
             startswith t method_prefix)} \<and>
     set (get_full_method_names_from_tree
         (snd (build_name_tree readmodule_ex method_prefix pkg_name mod_names None)) pkg_name) =
       {full_name pkg_name (m, c, t) | m c t. m \<in> set mod_names \<and>
          (\<exists>content ms. inspect_module readmodule_ex pkg_name m = Inr content \<and>
             (c, Class ms) \<in> set content \<and> t \<in> fst ` set ms \<and>
             startswith t method_prefix)}"
proof -
  define tree where
    "tree = snd (build_name_tree readmodule_ex method_prefix pkg_name mod_names None)"
  have ok': "\<forall>m\<in>set mod_names. \<exists>content. inspect_module readmodule_ex pkg_name m = Inr content"
    using ok by blast
  have 1: "fst (build_name_tree readmodule_ex method_prefix pkg_name mod_names None) = Inr ()"
    unfolding build_name_tree_def using ok' by (rule build_modules_ok)
  have wf: "wf_tree tree"
    unfolding tree_def build_name_tree_def using wf_tree_Nil by (rule build_modules_wf)
  have keys: "fst ` set tree \<subseteq> set mod_names"
    unfolding tree_def build_name_tree_def
    using build_modules_keys [of readmodule_ex method_prefix pkg_name None mod_names "[]"]
    by simp
  have 2: "get_full_method_names_from_tree tree pkg_name =
             map (full_name pkg_name) (leaves tree)"
    using ne keys by (intro flatten_leaves) auto
  have 3: "distinct (leaves tree)" using wf by (rule distinct_leaves)
  have hm: "has_method tree m c t \<longleftrightarrow>
       (m \<in> set mod_names \<and>
          (\<exists>content ms. inspect_module readmodule_ex pkg_name m = Inr content \<and>
             (c, Class ms) \<in> set content \<and> t \<in> fst ` set ms \<and>
             startswith t method_prefix))" for m c t
    unfolding tree_def build_name_tree_def
      build_modules_has_method [OF ok wf_tree_Nil]
    by (simp add: has_method_def filtered_out_def)
  have 4: "set (leaves tree) =
       {(m, c, t). m \<in> set mod_names \<and>
          (\<exists>content ms. inspect_module readmodule_ex pkg_name m = Inr content \<and>
             (c, Class ms) \<in> set content \<and> t \<in> fst ` set ms \<and>
             startswith t method_prefix)}"
  proof (rule set_eqI)
    fix l :: "string \<times> string \<times> string"
    obtain m c t where l: "l = (m, c, t)" by (cases l)
    show "l \<in> set (leaves tree) \<longleftrightarrow> l \<in> {(m, c, t). m \<in> set mod_names \<and>
          (\<exists>content ms. inspect_module readmodule_ex pkg_name m = Inr content \<and>
             (c, Class ms) \<in> set content \<and> t \<in> fst ` set ms \<and>
             startswith t method_prefix)}"
      using hm [of m c t] by (simp add: l has_method_def)
  qed
  have 5: "set (get_full_method_names_from_tree tree pkg_name) =
       {full_name pkg_name (m, c, t) | m c t. m \<in> set mod_names \<and>
          (\<exists>content ms. inspect_module readmodule_ex pkg_name m = Inr content \<and>
             (c, Class ms) \<in> set content \<and> t \<in> fst ` set ms \<and>
             startswith t method_prefix)}"
    unfolding 2 set_map 4 by (rule image_triples)
  from 1 2 3 4 5 show ?thesis unfolding tree_def by blast
qed

theorem build_then_flatten_witness:
  "fst (build_name_tree example_readmodule ''test'' None [''m''] None) = Inr () \<and>
   get_full_method_names_from_tree
       (snd (build_name_tree example_readmodule ''test'' None [''m''] None)) None =
     [''m.C.test_a'', ''m.C.test_b''] \<and>
   fst (build_name_tree example_readmodule ''test'' (Some ''pkg'') [''n''] None) = Inr () \<and>
   get_full_method_names_from_tree
       (snd (build_name_tree example_readmodule ''test'' (Some ''pkg'') [''n''] None))
       (Some ''pkg'') =
     [''pkg.n.E.test_z'']"
proof -
  have h1: "\<forall>m\<in>set [''m'']. \<exists>content.
       inspect_module example_readmodule None m = Inr content \<and> distinct (map fst content)"
    by (simp add: inspect_module_def example_readmodule_def truthy_def)
  have h2: "truthy None \<or> [] \<notin> set [''m'']" by simp
  have h3: "\<forall>m\<in>set [''n'']. \<exists>content.
       inspect_module example_readmodule (Some ''pkg'') m = Inr content \<and>
       distinct (map fst content)"
    by (simp add: inspect_module_def example_readmodule_def truthy_def)
  have h4: "truthy (Some ''pkg'') \<or> [] \<notin> set [''n'']" by simp
  have r1: "get_full_method_names_from_tree
       (snd (build_name_tree example_readmodule ''test'' None [''m''] None)) None =
     [''m.C.test_a'', ''m.C.test_b'']"
    using build_then_flatten [OF h1 h2, of "''test''"]
    by (simp add: example_build leaves_def module_leaves_def full_name_def)
  have r2: "get_full_method_names_from_tree
       (snd (build_name_tree example_readmodule ''test'' (Some ''pkg'') [''n''] None))
       (Some ''pkg'') = [''pkg.n.E.test_z'']"
    using build_then_flatten [OF h3 h4, of "''test''"]
    by (simp add: example_build_pkg leaves_def module_leaves_def full_name_def)
  have r3: "fst (build_name_tree example_readmodule ''test'' None [''m''] None) = Inr ()"
    using build_then_flatten [OF h1 h2, of "''test''"] by blast
  have r4: "fst (build_name_tree example_readmodule ''test'' (Some ''pkg'') [''n''] None) = Inr ()"
    using build_then_flatten [OF h3 h4, of "''test''"] by blast
  from r1 r2 r3 r4 show ?thesis by blast
qed

section \<open>C6: a group of granularity \<open>method\<close>\<close>

lemma check_mth_names_Inr:
  "check_mth_names xs = Inr () \<longleftrightarrow> (\<forall>n\<in>set xs. length (split_dot n) = 3)"
proof (induction xs)
  case Nil
  show ?case by simp
next
  case (Cons x xs)
  show ?case
  proof (cases "get_mth_name_parts x")
    case (Inl e)
    then have "length (split_dot x) \<noteq> 3" by (simp add: get_mth_name_parts_Inl)
    with Inl show ?thesis by simp
  next
    case (Inr parts)
    obtain m c t where "parts = (m, c, t)" by (cases parts)
    with Inr have "split_dot x = [m, c, t]" by (simp add: get_mth_name_parts_Inr)
    then have "length (split_dot x) = 3" by simp
    with Inr Cons show ?thesis by simp
  qed
qed

lemma check_mth_names_Inl:
  "check_mth_names xs = Inl e \<Longrightarrow>
   \<exists>n\<in>set xs. length (split_dot n) \<noteq> 3 \<and> e = ValueError (NotComply n ''module.class.method'')"
proof (induction xs)
  case Nil
  then show ?case by simp
next
  case (Cons x xs)
  show ?case
  proof (cases "get_mth_name_parts x")
    case (Inl e')
    with Cons.prems have "e' = e" by simp
    with Inl show ?thesis by (auto simp: get_mth_name_parts_Inl)
  next
    case (Inr parts)
    with Cons.prems have "check_mth_names xs = Inl e" by simp
    from Cons.IH [OF this] show ?thesis by auto
  qed
qed

text \<open>
  C6: for a group of granularity \<open>method\<close> that is not disabled, if every target splits
  into exactly three segments the group yields its targets (each once), each prefixed with
  the package and a dot when a package is set and unchanged otherwise; if some target does
  not, the group fails with the \<open>does not comply\<close> error of such a target. Either way the
  outcome is the same whatever the module inspector, the method prefix, the name tree and
  the iteration order of the exclusions are, and \<open>self._name_tree\<close> is left as it was.
\<close>

theorem method_group_names:
  assumes "g_disable grp \<noteq> Some True" and "g_granularity grp = ''method''"
    and "g_methods grp = Some names"
  shows
    "((\<forall>n\<in>set names. length (split_dot n) = 3) \<longrightarrow>
        parse_group set_iter readmodule_ex method_prefix pkg_name grp name_tree =
          (Inr (case pkg_name of
                  None \<Rightarrow> remdups names
                | Some p \<Rightarrow> if p = [] then remdups names
                            else map (\<lambda>x. p @ CHR ''.'' # x) (remdups names)),
           name_tree)) \<and>
     ((\<exists>n\<in>set names. length (split_dot n) \<noteq> 3) \<longrightarrow>
        (\<exists>n\<in>set names. length (split_dot n) \<noteq> 3 \<and>
           parse_group set_iter readmodule_ex method_prefix pkg_name grp name_tree =
             (Inl (ValueError (NotComply n ''module.class.method'')), name_tree))) \<and>
     fst (parse_group set_iter readmodule_ex method_prefix pkg_name grp name_tree) =
       fst (parse_group set_iter' readmodule_ex' method_prefix' pkg_name grp name_tree') \<and>
     snd (parse_group set_iter readmodule_ex method_prefix pkg_name grp name_tree) = name_tree"
proof -
  have neq: "''method'' \<noteq> ''module''" "''method'' \<noteq> ''class''" by simp_all
  have pg: "parse_group si rm mp pkg_name grp st =
     (case check_mth_names (remdups names) of
        Inl e \<Rightarrow> (Inl e, st)
      | Inr u \<Rightarrow>
          (Inr (case pkg_name of
                  None \<Rightarrow> remdups names
                | Some p \<Rightarrow> if p = [] then remdups names
                            else map (\<lambda>x. join_dot [p, x]) (remdups names)), st))" for si rm mp st
    using assms neq by (simp add: parse_group_def)
  have eq: "(case pkg_name of
                  None \<Rightarrow> remdups names
                | Some p \<Rightarrow> if p = [] then remdups names
                            else map (\<lambda>x. join_dot [p, x]) (remdups names)) =
            (case pkg_name of
                  None \<Rightarrow> remdups names
                | Some p \<Rightarrow> if p = [] then remdups names
                            else map (\<lambda>x. p @ CHR ''.'' # x) (remdups names))"
    by (cases pkg_name) simp_all
  have 1: "(\<forall>n\<in>set names. length (split_dot n) = 3) \<longrightarrow>
        parse_group set_iter readmodule_ex method_prefix pkg_name grp name_tree =
          (Inr (case pkg_name of
                  None \<Rightarrow> remdups names
                | Some p \<Rightarrow> if p = [] then remdups names
                            else map (\<lambda>x. p @ CHR ''.'' # x) (remdups names)),
           name_tree)"
  proof
    assume "\<forall>n\<in>set names. length (split_dot n) = 3"
    then have "check_mth_names (remdups names) = Inr ()"
      by (simp add: check_mth_names_Inr)
    then show "parse_group set_iter readmodule_ex method_prefix pkg_name grp name_tree =
          (Inr (case pkg_name of
                  None \<Rightarrow> remdups names
                | Some p \<Rightarrow> if p = [] then remdups names
                            else map (\<lambda>x. p @ CHR ''.'' # x) (remdups names)),
           name_tree)"
      by (simp add: pg eq)
  qed
  have 2: "(\<exists>n\<in>set names. length (split_dot n) \<noteq> 3) \<longrightarrow>
        (\<exists>n\<in>set names. length (split_dot n) \<noteq> 3 \<and>
           parse_group set_iter readmodule_ex method_prefix pkg_name grp name_tree =
             (Inl (ValueError (NotComply n ''module.class.method'')), name_tree))"
  proof
    assume "\<exists>n\<in>set names. length (split_dot n) \<noteq> 3"
    then have "check_mth_names (remdups names) \<noteq> Inr ()"
      by (simp add: check_mth_names_Inr)
    then obtain e where e: "check_mth_names (remdups names) = Inl e"
      by (cases "check_mth_names (remdups names)") auto
    from check_mth_names_Inl [OF e] obtain n where "n \<in> set names"
      "length (split_dot n) \<noteq> 3" "e = ValueError (NotComply n ''module.class.method'')"
      by auto
    then show "\<exists>n\<in>set names. length (split_dot n) \<noteq> 3 \<and>
           parse_group set_iter readmodule_ex method_prefix pkg_name grp name_tree =
             (Inl (ValueError (NotComply n ''module.class.method'')), name_tree)"
      using e by (auto simp: pg)
  qed
  have 3: "fst (parse_group set_iter readmodule_ex method_prefix pkg_name grp name_tree) =
       fst (parse_group set_iter' readmodule_ex' method_prefix' pkg_name grp name_tree')"
    unfolding pg by (cases "check_mth_names (remdups names)") simp_all
  have 4: "snd (parse_group set_iter readmodule_ex method_prefix pkg_name grp name_tree) = name_tree"
    unfolding pg by (cases "check_mth_names (remdups names)") simp_all
  from 1 2 3 4 show ?thesis by blast
qed


theorem method_group_names_witness:
  "parse_group remdups example_readmodule ''test'' (Some ''pkg'') (method_group [''mod.Cls.test_x''])
      None = (Inr [''pkg.mod.Cls.test_x''], None) \<and>
   parse_group remdups example_readmodule ''test'' None (method_group [''mod.Cls.test_x''])
      None = (Inr [''mod.Cls.test_x''], None) \<and>
   parse_group remdups example_readmodule ''test'' None (method_group [''mod.test_x''])
      None = (Inl (ValueError (NotComply ''mod.test_x'' ''module.class.method'')), None) \<and>
   fst (parse_suite remdups example_readmodule ''test''
      \<lparr>s_package = Some ''pkg'', s_groups = [(''g'', method_group [''mod.Cls.test_x''])],
       s_max_workers = None\<rparr> None) =
     Inr \<lparr>r_package = ''pkg'', r_test_case_names = [''pkg.mod.Cls.test_x''], r_max_workers = 1\<rparr>"
proof -
  have a: "g_disable (method_group ns) \<noteq> Some True" for ns by simp
  have b: "g_granularity (method_group ns) = ''method''" for ns by simp
  have c: "g_methods (method_group ns) = Some ns" for ns by simp
  have r1: "parse_group remdups example_readmodule ''test'' (Some ''pkg'')
      (method_group [''mod.Cls.test_x'']) None = (Inr [''pkg.mod.Cls.test_x''], None)"
    using method_group_names [OF a b c, where names = "[''mod.Cls.test_x'']"
      and set_iter = remdups and readmodule_ex = example_readmodule
      and method_prefix = "''test''" and pkg_name = "Some ''pkg''" and name_tree = None]
    by simp
  have r2: "parse_group remdups example_readmodule ''test'' None
      (method_group [''mod.Cls.test_x'']) None = (Inr [''mod.Cls.test_x''], None)"
    using method_group_names [OF a b c, where names = "[''mod.Cls.test_x'']"
      and set_iter = remdups and readmodule_ex = example_readmodule
      and method_prefix = "''test''" and pkg_name = None and name_tree = None]
    by simp
  have r3: "parse_group remdups example_readmodule ''test'' None (method_group [''mod.test_x''])
      None = (Inl (ValueError (NotComply ''mod.test_x'' ''module.class.method'')), None)"
    using method_group_names [OF a b c, where names = "[''mod.test_x'']"
      and set_iter = remdups and readmodule_ex = example_readmodule
      and method_prefix = "''test''" and pkg_name = None and name_tree = None]
    by simp
  have r4: "fst (parse_suite remdups example_readmodule ''test''
      \<lparr>s_package = Some ''pkg'', s_groups = [(''g'', method_group [''mod.Cls.test_x''])],
       s_max_workers = None\<rparr> None) =
     Inr \<lparr>r_package = ''pkg'', r_test_case_names = [''pkg.mod.Cls.test_x''], r_max_workers = 1\<rparr>"
    by (simp add: parse_suite_def suite_pkg_name_def truthy_def r1)
  from r1 r2 r3 r4 show ?thesis by blast
qed


section \<open>C8: the package field of a parsed suite\<close>

text \<open>
  C8, as the spec states it, is false on the code: the entry of a suite without a package
  has the package field \<open>'None'\<close>, a string, and so has the entry of a suite whose package
  is named \<open>None\<close>.
\<close>

theorem package_sentinel_counterexample:
  "fst (parse_suite remdups example_readmodule ''test''
      \<lparr>s_package = None, s_groups = [], s_max_workers = None\<rparr> None) =
     Inr \<lparr>r_package = ''None'', r_test_case_names = [], r_max_workers = 1\<rparr> \<and>
   fst (parse_suite remdups example_readmodule ''test''
      \<lparr>s_package = Some ''None'', s_groups = [], s_max_workers = None\<rparr> None) =
     Inr \<lparr>r_package = ''None'', r_test_case_names = [], r_max_workers = 1\<rparr>"
  by (simp add: parse_suite_def suite_pkg_name_def truthy_def)


lemma parse_suite_package:
  "fst (parse_suite set_iter rm mp suite st) = Inr r \<Longrightarrow>
   r_package r = (case s_package suite of
                    None \<Rightarrow> ''None''
                  | Some p \<Rightarrow> if p = [] then ''None'' else p)"
  by (cases "parse_groups set_iter rm mp (suite_pkg_name suite) (s_groups suite) [] st";
      cases "fst (parse_groups set_iter rm mp (suite_pkg_name suite) (s_groups suite) [] st)";
      cases "s_package suite")
     (auto simp: parse_suite_def Let_def suite_pkg_name_def truthy_def)

text \<open>
  C8, amended: the package field of a suite whose configuration omits the package is the
  string \<open>None\<close>; the package field of a suite with a non-empty package name is that name;
  so the two fields are equal exactly when the name is \<open>None\<close>.
\<close>

theorem package_field_is_name_or_None:
  assumes "fst (parse_suite set_iter readmodule_ex method_prefix suite name_tree) = Inr r"
    and "s_package suite = None"
    and "fst (parse_suite set_iter' readmodule_ex' method_prefix' suite' name_tree') = Inr r'"
    and "s_package suite' = Some p" and "p \<noteq> []"
  shows "r_package r = ''None'' \<and> r_package r' = p \<and>
         (r_package r = r_package r' \<longleftrightarrow> p = ''None'')"
  using parse_suite_package [OF assms(1)] parse_suite_package [OF assms(3)] assms(2,4,5)
  by auto

theorem package_field_is_name_or_None_witness:
  "r_package \<lparr>r_package = ''None'', r_test_case_names = [], r_max_workers = 1\<rparr> = ''None'' \<and>
   r_package \<lparr>r_package = ''pkg'', r_test_case_names = [], r_max_workers = 1\<rparr> = ''pkg'' \<and>
   fst (parse_suite remdups example_readmodule ''test''
      \<lparr>s_package = None, s_groups = [], s_max_workers = None\<rparr> None) =
     Inr \<lparr>r_package = ''None'', r_test_case_names = [], r_max_workers = 1\<rparr> \<and>
   fst (parse_suite remdups example_readmodule ''test''
      \<lparr>s_package = Some ''pkg'', s_groups = [], s_max_workers = None\<rparr> None) =
     Inr \<lparr>r_package = ''pkg'', r_test_case_names = [], r_max_workers = 1\<rparr>"
proof -
  have a: "fst (parse_suite remdups example_readmodule ''test''
      \<lparr>s_package = None, s_groups = [], s_max_workers = None\<rparr> None) =
     Inr \<lparr>r_package = ''None'', r_test_case_names = [], r_max_workers = 1\<rparr>"
    by (simp add: parse_suite_def suite_pkg_name_def truthy_def)
  have b: "fst (parse_suite remdups example_readmodule ''test''
      \<lparr>s_package = Some ''pkg'', s_groups = [], s_max_workers = None\<rparr> None) =
     Inr \<lparr>r_package = ''pkg'', r_test_case_names = [], r_max_workers = 1\<rparr>"
    by (simp add: parse_suite_def suite_pkg_name_def truthy_def)
  have c: "s_package \<lparr>s_package = None, s_groups = [], s_max_workers = None\<rparr> = None"
    by simp
  have d: "s_package \<lparr>s_package = Some ''pkg'', s_groups = [], s_max_workers = None\<rparr> =
      Some ''pkg''" by simp
  have e: "''pkg'' \<noteq> []" by simp
  from package_field_is_name_or_None [OF a c b d e] a b show ?thesis by blast
qed

section \<open>C7: the names of a suite\<close>

lemma parse_group_disabled:
  "g_disable grp = Some True \<Longrightarrow> parse_group set_iter rm mp pkg grp st = (Inr [], st)"
  by (simp add: parse_group_def)

lemma parse_group_fst_indep:
  "fst (parse_group set_iter rm mp pkg grp st) = fst (parse_group set_iter rm mp pkg grp st')"
  by (simp add: parse_group_def split: option.splits sum.splits prod.splits)

lemma parse_groups_Inr:
  "parse_groups set_iter rm mp pkg gs acc st = (Inr names, st') \<Longrightarrow>
   set names = set acc \<union>
     {n. \<exists>g ns. g \<in> snd ` set gs \<and> g_disable g \<noteq> Some True \<and>
           fst (parse_group set_iter rm mp pkg g None) = Inr ns \<and> n \<in> set ns}"
proof (induction gs arbitrary: acc st)
  case Nil
  then show ?case by simp
next
  case (Cons a gs)
  obtain k g where a: "a = (k, g)" by (cases a)
  obtain res st1 where pg: "parse_group set_iter rm mp pkg g st = (res, st1)"
    by (cases "parse_group set_iter rm mp pkg g st")
  show ?case
  proof (cases res)
    case (Inl e)
    with Cons.prems pg show ?thesis by (simp add: a)
  next
    case (Inr ns)
    with Cons.prems pg have
      rest: "parse_groups set_iter rm mp pkg gs (acc @ ns) st1 = (Inr names, st')"
      by (simp add: a)
    have g0: "fst (parse_group set_iter rm mp pkg g None) = Inr ns"
      using pg Inr parse_group_fst_indep [of set_iter rm mp pkg g None st] by simp
    have dis: "g_disable g = Some True \<Longrightarrow> ns = []"
      using pg Inr by (simp add: parse_group_disabled)
    have "set ns = {n. g_disable g \<noteq> Some True \<and> n \<in> set ns}"
      using dis by auto
    then have "set names = set acc \<union> {n. g_disable g \<noteq> Some True \<and> n \<in> set ns} \<union>
       {n. \<exists>g ns. g \<in> snd ` set gs \<and> g_disable g \<noteq> Some True \<and>
           fst (parse_group set_iter rm mp pkg g None) = Inr ns \<and> n \<in> set ns}"
      using Cons.IH [OF rest] by auto
    also have "\<dots> = set acc \<union>
       {n. \<exists>g' ns. g' \<in> snd ` set (a # gs) \<and> g_disable g' \<noteq> Some True \<and>
           fst (parse_group set_iter rm mp pkg g' None) = Inr ns \<and> n \<in> set ns}"
      using g0 by (auto simp: a)
    finally show ?thesis .
  qed
qed

lemma parse_groups_total:
  "\<forall>g\<in>snd ` set gs. \<exists>ns. fst (parse_group set_iter rm mp pkg g None) = Inr ns \<Longrightarrow>
   \<exists>names. fst (parse_groups set_iter rm mp pkg gs acc st) = Inr names"
proof (induction gs arbitrary: acc st)
  case Nil
  then show ?case by simp
next
  case (Cons a gs)
  obtain k g where a: "a = (k, g)" by (cases a)
  from Cons.prems obtain ns where "fst (parse_group set_iter rm mp pkg g None) = Inr ns"
    by (auto simp: a)
  then have "fst (parse_group set_iter rm mp pkg g st) = Inr ns"
    using parse_group_fst_indep [of set_iter rm mp pkg g None st] by simp
  then obtain st1 where pg: "parse_group set_iter rm mp pkg g st = (Inr ns, st1)"
    by (cases "parse_group set_iter rm mp pkg g st") simp
  have "\<forall>g\<in>snd ` set gs. \<exists>ns. fst (parse_group set_iter rm mp pkg g None) = Inr ns"
    using Cons.prems by simp
  from Cons.IH [OF this, of "acc @ ns" st1] pg show ?case by (simp add: a)
qed

lemma example_flatten:
  "get_full_method_names_from_tree [(''m'', [(''C'', [''test_a'', ''test_b''])])] None =
     [''m.C.test_a'', ''m.C.test_b'']"
  by (simp add: get_full_method_names_from_tree_def dotted_name_def truthy_def)

lemma example_g1:
  "parse_group remdups example_readmodule ''test'' None (module_group [''m'']) st =
     (Inr [''m.C.test_a'', ''m.C.test_b''], Some [(''m'', [(''C'', [''test_a'', ''test_b''])])])"
  by (simp add: parse_group_def example_build apply_exclusions_def example_flatten)

lemma example_g2:
  "parse_group remdups example_readmodule ''test'' None
     (method_group [''m.C.test_a'', ''x.Y.test_q'']) st =
     (Inr [''m.C.test_a'', ''x.Y.test_q''], st)"
  by (simp add: parse_group_def get_mth_name_parts_def)

text \<open>
  C7: when a suite is parsed, the set of its test-case names is the union, over its
  groups that are not disabled, of the names each group resolves to on its own (from the
  loader's initial state), and no name is listed twice. The suite is parsed whenever each
  of its groups resolves on its own. A disabled group yields no name and leaves the
  loader's state as it is.
\<close>

theorem suite_names_are_union:
  "(fst (parse_suite set_iter readmodule_ex method_prefix suite name_tree) = Inr r \<longrightarrow>
      set (r_test_case_names r) =
        {n. \<exists>g ns. g \<in> snd ` set (s_groups suite) \<and> g_disable g \<noteq> Some True \<and>
              fst (parse_group set_iter readmodule_ex method_prefix (suite_pkg_name suite) g None) =
                Inr ns \<and>
              n \<in> set ns} \<and>
      distinct (r_test_case_names r)) \<and>
   ((\<forall>g\<in>snd ` set (s_groups suite). \<exists>ns.
        fst (parse_group set_iter readmodule_ex method_prefix (suite_pkg_name suite) g None) = Inr ns) \<longrightarrow>
      (\<exists>r. fst (parse_suite set_iter readmodule_ex method_prefix suite name_tree) = Inr r)) \<and>
   (g_disable grp = Some True \<longrightarrow>
      parse_group set_iter readmodule_ex method_prefix pkg_name grp name_tree' = (Inr [], name_tree'))"
proof -
  let ?pkg = "suite_pkg_name suite"
  obtain res st1 where
    pg: "parse_groups set_iter readmodule_ex method_prefix ?pkg (s_groups suite) [] name_tree = (res, st1)"
    by (cases "parse_groups set_iter readmodule_ex method_prefix ?pkg (s_groups suite) [] name_tree")
  have 1: "fst (parse_suite set_iter readmodule_ex method_prefix suite name_tree) = Inr r \<longrightarrow>
      set (r_test_case_names r) =
        {n. \<exists>g ns. g \<in> snd ` set (s_groups suite) \<and> g_disable g \<noteq> Some True \<and>
              fst (parse_group set_iter readmodule_ex method_prefix ?pkg g None) = Inr ns \<and>
              n \<in> set ns} \<and>
      distinct (r_test_case_names r)"
  proof
    assume ok: "fst (parse_suite set_iter readmodule_ex method_prefix suite name_tree) = Inr r"
    show "set (r_test_case_names r) =
        {n. \<exists>g ns. g \<in> snd ` set (s_groups suite) \<and> g_disable g \<noteq> Some True \<and>
              fst (parse_group set_iter readmodule_ex method_prefix ?pkg g None) = Inr ns \<and>
              n \<in> set ns} \<and>
      distinct (r_test_case_names r)"
    proof (cases res)
      case (Inl e)
      with ok pg show ?thesis by (simp add: parse_suite_def Let_def)
    next
      case (Inr names)
      with ok pg have r: "r_test_case_names r = remdups names"
        by (auto simp: parse_suite_def Let_def)
      from parse_groups_Inr [OF pg [unfolded Inr]] show ?thesis by (simp add: r)
    qed
  qed
  have 2: "(\<forall>g\<in>snd ` set (s_groups suite). \<exists>ns.
        fst (parse_group set_iter readmodule_ex method_prefix ?pkg g None) = Inr ns) \<longrightarrow>
      (\<exists>r. fst (parse_suite set_iter readmodule_ex method_prefix suite name_tree) = Inr r)"
  proof
    assume "\<forall>g\<in>snd ` set (s_groups suite). \<exists>ns.
        fst (parse_group set_iter readmodule_ex method_prefix ?pkg g None) = Inr ns"
    from parse_groups_total [OF this, of "[]" name_tree] pg obtain names
      where "res = Inr names" by auto
    with pg show "\<exists>r. fst (parse_suite set_iter readmodule_ex method_prefix suite name_tree) = Inr r"
      by (simp add: parse_suite_def Let_def)
  qed
  have 3: "g_disable grp = Some True \<longrightarrow>
      parse_group set_iter readmodule_ex method_prefix pkg_name grp name_tree' = (Inr [], name_tree')"
    by (simp add: parse_group_disabled)
  from 1 2 3 show ?thesis by blast
qed

theorem suite_names_are_union_witness:
  "fst (parse_suite remdups example_readmodule ''test'' example_suite None) =
     Inr \<lparr>r_package = ''None'',
          r_test_case_names = [''m.C.test_b'', ''m.C.test_a'', ''x.Y.test_q''],
          r_max_workers = 1\<rparr> \<and>
   distinct [''m.C.test_b'', ''m.C.test_a'', ''x.Y.test_q''] \<and>
   parse_group remdups example_readmodule ''test'' None (disabled_group [''z.Z.test_zz'']) None =
     (Inr [], None)"
proof -
  let ?r = "\<lparr>r_package = ''None'',
          r_test_case_names = [''m.C.test_b'', ''m.C.test_a'', ''x.Y.test_q''],
          r_max_workers = 1\<rparr>"
  have all: "\<forall>g\<in>snd ` set (s_groups example_suite). \<exists>ns.
      fst (parse_group remdups example_readmodule ''test'' (suite_pkg_name example_suite) g None) = Inr ns"
    by (simp add: suite_pkg_name_def truthy_def example_g1 example_g2 parse_group_disabled)
  note inst = suite_names_are_union [where set_iter = remdups
      and readmodule_ex = example_readmodule and method_prefix = "''test''"
      and suite = example_suite and name_tree = None
      and grp = "disabled_group [''z.Z.test_zz'']" and pkg_name = None and name_tree' = None]
  from inst all obtain r where r: "fst (parse_suite remdups example_readmodule ''test'' example_suite None) = Inr r"
    by blast
  have v: "fst (parse_suite remdups example_readmodule ''test'' example_suite None) = Inr ?r"
    by (simp add: parse_suite_def suite_pkg_name_def truthy_def example_g1 example_g2
        parse_group_disabled)
  from inst [of ?r] v have d: "distinct (r_test_case_names ?r)" by blast
  have dis: "g_disable (disabled_group [''z.Z.test_zz'']) = Some True" by simp
  from inst [of ?r] dis have
    g3: "parse_group remdups example_readmodule ''test'' None (disabled_group [''z.Z.test_zz'']) None =
     (Inr [], None)" by blast
  from v d g3 show ?thesis by simp
qed

section \<open>C10: exclusions listed more than once\<close>

lemma remove_classes_Nil: "remove_classes D [] = []"
  by (simp add: remove_classes_def)

lemma remove_classes_Cons:
  "remove_classes D ((m, cs) # tree) =
     (if filter (\<lambda>(c, ms). (m, c) \<notin> D) cs = [] then remove_classes D tree
      else (m, filter (\<lambda>(c, ms). (m, c) \<notin> D) cs) # remove_classes D tree)"
  by (simp add: remove_classes_def)

lemma remove_classes_append:
  "remove_classes D (xs @ ys) = remove_classes D xs @ remove_classes D ys"
  by (simp add: remove_classes_def)

lemma no_empty_branch_Cons:
  "no_empty_branch ((m, cs) # tree) \<longleftrightarrow>
     cs \<noteq> [] \<and> list_all (\<lambda>(c, ms). ms \<noteq> []) cs \<and> no_empty_branch tree"
  by (simp add: no_empty_branch_def)

lemma no_empty_branch_append:
  "no_empty_branch (xs @ ys) \<longleftrightarrow> no_empty_branch xs \<and> no_empty_branch ys"
  by (simp add: no_empty_branch_def)

lemma remove_classes_id:
  "no_empty_branch tree \<Longrightarrow> \<forall>(m, c)\<in>D. m \<notin> fst ` set tree \<Longrightarrow> remove_classes D tree = tree"
proof (induction tree)
  case Nil
  show ?case by (simp add: remove_classes_Nil)
next
  case (Cons a tree)
  obtain m cs where a: "a = (m, cs)" by (cases a)
  from Cons.prems(2) have keep: "filter (\<lambda>(c, ms). (m, c) \<notin> D) cs = cs"
    by (auto simp: a filter_id_conv)
  from Cons.prems have ne: "cs \<noteq> []" and rest: "no_empty_branch tree"
    and D: "\<forall>(m, c)\<in>D. m \<notin> fst ` set tree"
    by (auto simp: a no_empty_branch_Cons)
  from Cons.IH [OF rest D] keep ne show ?case by (simp add: a remove_classes_Cons)
qed

lemma filter_delete_class:
  "filter (\<lambda>(c', ms). (m, c') \<notin> {(m, c)}) cs = AList.delete c cs"
  by (induction cs) (auto simp: AList.delete_eq)

lemma del_cls_remove_classes:
  assumes wf: "wf_tree tree" and ne: "no_empty_branch tree"
    and m: "map_of tree m = Some cs" and c: "map_of cs c = Some ms"
  shows "snd (del_cls_in_name_tree tree m c) = remove_classes {(m, c)} tree"
proof -
  have d: "distinct (map fst tree)" using wf by (simp add: wf_tree_def)
  from alist_split_distinct [OF d m] obtain pre post
    where t: "tree = pre @ (m, cs) # post" and pre: "m \<notin> fst ` set pre"
      and post: "m \<notin> fst ` set post" by blast
  have nepre: "no_empty_branch pre" and nepost: "no_empty_branch post"
    using ne t by (simp_all add: no_empty_branch_append no_empty_branch_Cons)
  have ipre: "remove_classes {(m, c)} pre = pre"
    using nepre pre by (intro remove_classes_id) auto
  have ipost: "remove_classes {(m, c)} post = post"
    using nepost post by (intro remove_classes_id) auto
  let ?cs1 = "AList.delete c cs"
  have r: "snd (del_cls_in_name_tree tree m c) =
             (if ?cs1 = [] then AList.delete m (AList.update m ?cs1 tree)
              else AList.update m ?cs1 tree)"
    using m c by (simp add: del_cls_in_name_tree_def)
  have u: "AList.update m ?cs1 tree = pre @ (m, ?cs1) # post"
    using t pre by (simp add: update_at)
  have dl: "AList.delete m (pre @ (m, x) # post) = pre @ post" for x
    using pre post by (simp add: delete_at)
  have "remove_classes {(m, c)} tree =
          (if ?cs1 = [] then pre @ post else pre @ (m, ?cs1) # post)"
    unfolding t remove_classes_append remove_classes_Cons filter_delete_class ipre ipost
    by simp
  then show ?thesis unfolding r u by (simp add: dl)
qed

lemma remove_classes_twice:
  "remove_classes D1 (remove_classes D2 tree) = remove_classes (D1 \<union> D2) tree"
proof (induction tree)
  case Nil
  show ?case by (simp add: remove_classes_Nil)
next
  case (Cons a tree)
  obtain m cs where a: "a = (m, cs)" by (cases a)
  have f: "filter (\<lambda>(c, ms). (m, c) \<notin> D1) (filter (\<lambda>(c, ms). (m, c) \<notin> D2) cs) =
           filter (\<lambda>(c, ms). (m, c) \<notin> D1 \<union> D2) cs"
    by (induction cs) auto
  show ?case
  proof (cases "filter (\<lambda>(c, ms). (m, c) \<notin> D2) cs = []")
    case True
    then have "filter (\<lambda>(c, ms). (m, c) \<notin> D1 \<union> D2) cs = []"
      using f by simp
    with True Cons show ?thesis by (simp add: a remove_classes_Cons)
  next
    case False
    with Cons f show ?thesis by (simp add: a remove_classes_Cons)
  qed
qed

lemma get_cls_name_parts_inj:
  "get_cls_name_parts x = Inr p \<Longrightarrow> get_cls_name_parts y = Inr p \<Longrightarrow> x = y"
  by (cases p) (simp add: get_cls_name_parts_Inr split_dot_two_iff)

lemma get_mth_name_parts_inj:
  "get_mth_name_parts x = Inr p \<Longrightarrow> get_mth_name_parts y = Inr p \<Longrightarrow> x = y"
  by (cases p) (simp add: get_mth_name_parts_Inr split_dot_three_iff)

lemma del_cls_fails:
  assumes "wf_tree tree" and "\<not> has_class tree m c"
  shows "fst (del_cls_in_name_tree tree m c) \<noteq> Inr ()"
proof -
  have d: "distinct (map fst tree)" using assms(1) by (simp add: wf_tree_def)
  show ?thesis
  proof (cases "map_of tree m")
    case None
    then show ?thesis by (simp add: del_cls_in_name_tree_def)
  next
    case (Some cs)
    with assms(2) have "map_of cs c = None" by (simp add: has_class_map_of [OF d])
    with Some show ?thesis by (simp add: del_cls_in_name_tree_def)
  qed
qed

lemma del_cls_succeeds:
  assumes wf: "wf_tree tree" and ne: "no_empty_branch tree" and h: "has_class tree m c"
  shows "del_cls_in_name_tree tree m c = (Inr (), remove_classes {(m, c)} tree)"
    and "wf_tree (remove_classes {(m, c)} tree)"
    and "no_empty_branch (remove_classes {(m, c)} tree)"
    and "has_class (remove_classes {(m, c)} tree) m' c' \<longleftrightarrow>
           has_class tree m' c' \<and> \<not> (m' = m \<and> c' = c)"
proof -
  have d: "distinct (map fst tree)" using wf by (simp add: wf_tree_def)
  from h obtain cs ms where m: "map_of tree m = Some cs" and c: "map_of cs c = Some ms"
    by (auto simp: has_class_map_of [OF d])
  have s: "snd (del_cls_in_name_tree tree m c) = remove_classes {(m, c)} tree"
    using wf ne m c by (rule del_cls_remove_classes)
  have f: "fst (del_cls_in_name_tree tree m c) = Inr ()"
    using wf m c by (rule del_cls_ok(1))
  show "del_cls_in_name_tree tree m c = (Inr (), remove_classes {(m, c)} tree)"
    using f s by (cases "del_cls_in_name_tree tree m c") simp
  show "wf_tree (remove_classes {(m, c)} tree)"
    using del_cls_wf [OF wf, of m c] by (simp add: s)
  show "no_empty_branch (remove_classes {(m, c)} tree)"
    using del_cls_no_empty [OF ne, of m c] by (simp add: s)
  show "has_class (remove_classes {(m, c)} tree) m' c' \<longleftrightarrow>
           has_class tree m' c' \<and> \<not> (m' = m \<and> c' = c)"
    using del_cls_ok(3) [OF wf m c, of m' c'] by (simp add: s)
qed

lemma del_except_classes_loop_char:
  assumes "wf_tree tree" and "no_empty_branch tree" and "distinct xs"
  shows "(fst (del_except_classes_loop xs tree) = Inr () \<longleftrightarrow>
           (\<forall>x\<in>set xs. \<exists>m c. get_cls_name_parts x = Inr (m, c) \<and> has_class tree m c)) \<and>
         (fst (del_except_classes_loop xs tree) = Inr () \<longrightarrow>
           snd (del_except_classes_loop xs tree) =
             remove_classes {p. \<exists>x\<in>set xs. get_cls_name_parts x = Inr p} tree)"
  using assms
proof (induction xs arbitrary: tree)
  case Nil
  have "remove_classes {} tree = tree"
    using Nil.prems(2) by (intro remove_classes_id) auto
  then show ?case by simp
next
  case (Cons x xs)
  note wf = Cons.prems(1) and ne = Cons.prems(2)
  from Cons.prems(3) have dx: "distinct xs" and nx: "x \<notin> set xs" by simp_all
  show ?case
  proof (cases "get_cls_name_parts x")
    case (Inl e)
    then show ?thesis by simp
  next
    case (Inr p)
    obtain m c where p: "p = (m, c)" by (cases p)
    note px = Inr [unfolded p]
    show ?thesis
    proof (cases "has_class tree m c")
      case False
      from del_cls_fails [OF wf False] obtain e t1
        where "del_cls_in_name_tree tree m c = (Inl e, t1)"
        by (cases "del_cls_in_name_tree tree m c"; cases "fst (del_cls_in_name_tree tree m c)")
           auto
      with px False show ?thesis by simp
    next
      case True
      let ?t1 = "remove_classes {(m, c)} tree"
      note s = del_cls_succeeds [OF wf ne True]
      have step: "del_except_classes_loop (x # xs) tree = del_except_classes_loop xs ?t1"
        using px s(1) by simp
      note IH = Cons.IH [OF s(2) s(3) dx]
      have other: "get_cls_name_parts x' = Inr (m', c') \<Longrightarrow> x' \<in> set xs \<Longrightarrow>
          \<not> (m' = m \<and> c' = c)" for x' m' c'
        using get_cls_name_parts_inj [of x' "(m, c)" x] px nx by auto
      have hc: "(\<forall>x'\<in>set xs. \<exists>m' c'. get_cls_name_parts x' = Inr (m', c') \<and> has_class ?t1 m' c')
         \<longleftrightarrow> (\<forall>x'\<in>set xs. \<exists>m' c'. get_cls_name_parts x' = Inr (m', c') \<and> has_class tree m' c')"
        using other by (auto simp: s(4))
      have D: "{p. \<exists>x'\<in>set (x # xs). get_cls_name_parts x' = Inr p} =
               {p. \<exists>x'\<in>set xs. get_cls_name_parts x' = Inr p} \<union> {(m, c)}"
        using px by auto
      have 1: "fst (del_except_classes_loop (x # xs) tree) = Inr () \<longleftrightarrow>
           (\<forall>x'\<in>set (x # xs). \<exists>m' c'. get_cls_name_parts x' = Inr (m', c') \<and>
               has_class tree m' c')"
        unfolding step using IH hc px True by simp
      have 2: "fst (del_except_classes_loop (x # xs) tree) = Inr () \<longrightarrow>
           snd (del_except_classes_loop (x # xs) tree) =
             remove_classes {p. \<exists>x'\<in>set (x # xs). get_cls_name_parts x' = Inr p} tree"
        unfolding step D using IH by (simp add: remove_classes_twice)
      from 1 2 show ?thesis by blast
    qed
  qed
qed

lemma prune_methods_Nil: "prune_methods D m [] = []"
  by (simp add: prune_methods_def)

lemma prune_methods_Cons:
  "prune_methods D m ((c, ms) # cs) =
     (if filter (\<lambda>t. (m, c, t) \<notin> D) ms = [] then prune_methods D m cs
      else (c, filter (\<lambda>t. (m, c, t) \<notin> D) ms) # prune_methods D m cs)"
  by (simp add: prune_methods_def)

lemma prune_methods_append:
  "prune_methods D m (xs @ ys) = prune_methods D m xs @ prune_methods D m ys"
  by (simp add: prune_methods_def)

lemma remove_methods_Nil: "remove_methods D [] = []"
  by (simp add: remove_methods_def)

lemma remove_methods_Cons:
  "remove_methods D ((m, cs) # tree) =
     (if prune_methods D m cs = [] then remove_methods D tree
      else (m, prune_methods D m cs) # remove_methods D tree)"
  by (simp add: remove_methods_def)

lemma remove_methods_append:
  "remove_methods D (xs @ ys) = remove_methods D xs @ remove_methods D ys"
  by (simp add: remove_methods_def)

lemma prune_methods_id:
  "list_all (\<lambda>(c, ms). ms \<noteq> []) cs \<Longrightarrow> \<forall>(m', c', t)\<in>D. m' \<noteq> m \<or> c' \<notin> fst ` set cs \<Longrightarrow>
   prune_methods D m cs = cs"
proof (induction cs)
  case Nil
  show ?case by (simp add: prune_methods_Nil)
next
  case (Cons a cs)
  obtain c ms where a: "a = (c, ms)" by (cases a)
  from Cons.prems(2) have keep: "filter (\<lambda>t. (m, c, t) \<notin> D) ms = ms"
    by (auto simp: a filter_id_conv)
  from Cons.prems have ne: "ms \<noteq> []" and rest: "list_all (\<lambda>(c, ms). ms \<noteq> []) cs"
    and D: "\<forall>(m', c', t)\<in>D. m' \<noteq> m \<or> c' \<notin> fst ` set cs"
    by (auto simp: a)
  from Cons.IH [OF rest D] keep ne show ?case by (simp add: a prune_methods_Cons)
qed

lemma filter_remove_method:
  "filter (\<lambda>t'. (m, c, t') \<notin> {(m, c, t)}) ms = removeAll t ms"
  by (induction ms) auto

lemma prune_methods_single:
  assumes d: "distinct (map fst cs)" and ne: "list_all (\<lambda>(c, ms). ms \<noteq> []) cs"
    and c: "map_of cs c = Some ms"
  shows "prune_methods {(m, c, t)} m cs =
     (if removeAll t ms = [] then AList.delete c (AList.update c (removeAll t ms) cs)
      else AList.update c (removeAll t ms) cs)"
proof -
  from alist_split_distinct [OF d c] obtain pre post
    where s: "cs = pre @ (c, ms) # post" and pre: "c \<notin> fst ` set pre"
      and post: "c \<notin> fst ` set post" by blast
  have nepre: "list_all (\<lambda>(c, ms). ms \<noteq> []) pre" and nepost: "list_all (\<lambda>(c, ms). ms \<noteq> []) post"
    using ne s by simp_all
  have ipre: "prune_methods {(m, c, t)} m pre = pre"
    using nepre pre by (intro prune_methods_id) auto
  have ipost: "prune_methods {(m, c, t)} m post = post"
    using nepost post by (intro prune_methods_id) auto
  have u: "AList.update c x cs = pre @ (c, x) # post" for x
    using s pre by (simp add: update_at)
  have dl: "AList.delete c (pre @ (c, x) # post) = pre @ post" for x
    using pre post by (simp add: delete_at)
  have "prune_methods {(m, c, t)} m cs =
          (if removeAll t ms = [] then pre @ post else pre @ (c, removeAll t ms) # post)"
    unfolding s prune_methods_append prune_methods_Cons filter_remove_method ipre ipost
    by simp
  then show ?thesis unfolding u by (simp add: dl)
qed

lemma prune_methods_twice:
  "prune_methods D1 m (prune_methods D2 m cs) = prune_methods (D1 \<union> D2) m cs"
proof (induction cs)
  case Nil
  show ?case by (simp add: prune_methods_Nil)
next
  case (Cons a cs)
  obtain c ms where a: "a = (c, ms)" by (cases a)
  have f: "filter (\<lambda>t. (m, c, t) \<notin> D1) (filter (\<lambda>t. (m, c, t) \<notin> D2) ms) =
           filter (\<lambda>t. (m, c, t) \<notin> D1 \<union> D2) ms"
    by (induction ms) auto
  show ?case
  proof (cases "filter (\<lambda>t. (m, c, t) \<notin> D2) ms = []")
    case True
    then have "filter (\<lambda>t. (m, c, t) \<notin> D1 \<union> D2) ms = []"
      using f by simp
    with True Cons show ?thesis by (simp add: a prune_methods_Cons)
  next
    case False
    with Cons f show ?thesis by (simp add: a prune_methods_Cons)
  qed
qed

lemma remove_methods_id:
  "no_empty_branch tree \<Longrightarrow> \<forall>(m, c, t)\<in>D. m \<notin> fst ` set tree \<Longrightarrow> remove_methods D tree = tree"
proof (induction tree)
  case Nil
  show ?case by (simp add: remove_methods_Nil)
next
  case (Cons a tree)
  obtain m cs where a: "a = (m, cs)" by (cases a)
  from Cons.prems have ne: "cs \<noteq> []" and necs: "list_all (\<lambda>(c, ms). ms \<noteq> []) cs"
    and rest: "no_empty_branch tree"
    and D: "\<forall>(m, c, t)\<in>D. m \<notin> fst ` set tree"
    and Dm: "\<forall>(m', c', t)\<in>D. m' \<noteq> m"
    by (auto simp: a no_empty_branch_Cons)
  have keep: "prune_methods D m cs = cs"
    using necs Dm by (intro prune_methods_id) auto
  from Cons.IH [OF rest D] keep ne show ?case by (simp add: a remove_methods_Cons)
qed

lemma del_mth_remove_methods:
  assumes wf: "wf_tree tree" and ne: "no_empty_branch tree"
    and m: "map_of tree m = Some cs" and c: "map_of cs c = Some ms" and t: "t \<in> set ms"
  shows "snd (del_mth_in_name_tree tree m c t) = remove_methods {(m, c, t)} tree"
proof -
  have d: "distinct (map fst tree)" using wf by (simp add: wf_tree_def)
  have wcs: "wf_classes cs" using wf m by (rule wf_tree_lookup)
  then have dc: "distinct (map fst cs)" by (simp add: wf_classes_def)
  have necs: "list_all (\<lambda>(c, ms). ms \<noteq> []) cs" using ne m by (rule no_empty_branch_lookup)
  from alist_split_distinct [OF d m] obtain pre post
    where s: "tree = pre @ (m, cs) # post" and pre: "m \<notin> fst ` set pre"
      and post: "m \<notin> fst ` set post" by blast
  have nepre: "no_empty_branch pre" and nepost: "no_empty_branch post"
    using ne s by (simp_all add: no_empty_branch_append no_empty_branch_Cons)
  have ipre: "remove_methods {(m, c, t)} pre = pre"
    using nepre pre by (intro remove_methods_id) auto
  have ipost: "remove_methods {(m, c, t)} post = post"
    using nepost post by (intro remove_methods_id) auto
  define cs2 where "cs2 = (if removeAll t ms = []
      then AList.delete c (AList.update c (removeAll t ms) cs)
      else AList.update c (removeAll t ms) cs)"
  have pm: "prune_methods {(m, c, t)} m cs = cs2"
    unfolding cs2_def using dc necs c by (rule prune_methods_single)
  have r: "snd (del_mth_in_name_tree tree m c t) =
             (if cs2 = [] then AList.delete m (AList.update m cs2 tree)
              else AList.update m cs2 tree)"
    using m c t by (simp add: del_mth_in_name_tree_def Let_def cs2_def)
  have u: "AList.update m x tree = pre @ (m, x) # post" for x
    using s pre by (simp add: update_at)
  have dl: "AList.delete m (pre @ (m, x) # post) = pre @ post" for x
    using pre post by (simp add: delete_at)
  have "remove_methods {(m, c, t)} tree =
          (if cs2 = [] then pre @ post else pre @ (m, cs2) # post)"
    unfolding s remove_methods_append remove_methods_Cons pm ipre ipost by simp
  then show ?thesis unfolding r u by (simp add: dl)
qed

lemma remove_methods_twice:
  "remove_methods D1 (remove_methods D2 tree) = remove_methods (D1 \<union> D2) tree"
proof (induction tree)
  case Nil
  show ?case by (simp add: remove_methods_Nil)
next
  case (Cons a tree)
  obtain m cs where a: "a = (m, cs)" by (cases a)
  note f = prune_methods_twice [of D1 m D2 cs]
  show ?case
  proof (cases "prune_methods D2 m cs = []")
    case True
    then have "prune_methods (D1 \<union> D2) m cs = []"
      using f by (simp add: prune_methods_Nil)
    with True Cons show ?thesis by (simp add: a remove_methods_Cons)
  next
    case False
    with Cons f show ?thesis by (simp add: a remove_methods_Cons)
  qed
qed

lemma del_mth_fails:
  assumes "wf_tree tree" and "\<not> has_method tree m c t"
  shows "fst (del_mth_in_name_tree tree m c t) \<noteq> Inr ()"
proof (cases "map_of tree m")
  case None
  then show ?thesis by (simp add: del_mth_in_name_tree_def)
next
  case (Some cs)
  note m = this
  show ?thesis
  proof (cases "map_of cs c")
    case None
    with m show ?thesis by (simp add: del_mth_in_name_tree_def)
  next
    case (Some ms)
    with assms m have "t \<notin> set ms" by (simp add: has_method_map_of)
    with m Some show ?thesis by (simp add: del_mth_in_name_tree_def)
  qed
qed

lemma del_mth_succeeds:
  assumes wf: "wf_tree tree" and ne: "no_empty_branch tree" and h: "has_method tree m c t"
  shows "del_mth_in_name_tree tree m c t = (Inr (), remove_methods {(m, c, t)} tree)"
    and "wf_tree (remove_methods {(m, c, t)} tree)"
    and "no_empty_branch (remove_methods {(m, c, t)} tree)"
    and "has_method (remove_methods {(m, c, t)} tree) m' c' t' \<longleftrightarrow>
           has_method tree m' c' t' \<and> (m', c', t') \<noteq> (m, c, t)"
proof -
  from h obtain cs ms where m: "map_of tree m = Some cs" and c: "map_of cs c = Some ms"
    and t: "t \<in> set ms"
    by (auto simp: has_method_map_of [OF wf])
  have s: "snd (del_mth_in_name_tree tree m c t) = remove_methods {(m, c, t)} tree"
    using wf ne m c t by (rule del_mth_remove_methods)
  have f: "fst (del_mth_in_name_tree tree m c t) = Inr ()"
    using wf m c t by (rule del_mth_ok(1))
  show "del_mth_in_name_tree tree m c t = (Inr (), remove_methods {(m, c, t)} tree)"
    using f s by (cases "del_mth_in_name_tree tree m c t") simp
  show "wf_tree (remove_methods {(m, c, t)} tree)"
    using del_mth_wf [OF wf, of m c t] by (simp add: s)
  show "no_empty_branch (remove_methods {(m, c, t)} tree)"
    using del_mth_no_empty [OF ne, of m c t] by (simp add: s)
  show "has_method (remove_methods {(m, c, t)} tree) m' c' t' \<longleftrightarrow>
           has_method tree m' c' t' \<and> (m', c', t') \<noteq> (m, c, t)"
    using del_mth_ok(2) [OF wf m c t] by (simp add: s has_method_def)
qed

lemma del_except_methods_loop_char:
  assumes "wf_tree tree" and "no_empty_branch tree" and "distinct xs"
  shows "(fst (del_except_methods_loop xs tree) = Inr () \<longleftrightarrow>
           (\<forall>x\<in>set xs. \<exists>m c t. get_mth_name_parts x = Inr (m, c, t) \<and> has_method tree m c t)) \<and>
         (fst (del_except_methods_loop xs tree) = Inr () \<longrightarrow>
           snd (del_except_methods_loop xs tree) =
             remove_methods {p. \<exists>x\<in>set xs. get_mth_name_parts x = Inr p} tree)"
  using assms
proof (induction xs arbitrary: tree)
  case Nil
  have "remove_methods {} tree = tree"
    using Nil.prems(2) by (intro remove_methods_id) auto
  then show ?case by simp
next
  case (Cons x xs)
  note wf = Cons.prems(1) and ne = Cons.prems(2)
  from Cons.prems(3) have dx: "distinct xs" and nx: "x \<notin> set xs" by simp_all
  show ?case
  proof (cases "get_mth_name_parts x")
    case (Inl e)
    then show ?thesis by simp
  next
    case (Inr p)
    obtain m c t where p: "p = (m, c, t)" by (cases p)
    note px = Inr [unfolded p]
    show ?thesis
    proof (cases "has_method tree m c t")
      case False
      from del_mth_fails [OF wf False] obtain e t1
        where "del_mth_in_name_tree tree m c t = (Inl e, t1)"
        by (cases "del_mth_in_name_tree tree m c t";
            cases "fst (del_mth_in_name_tree tree m c t)") auto
      with px False show ?thesis by simp
    next
      case True
      let ?t1 = "remove_methods {(m, c, t)} tree"
      note s = del_mth_succeeds [OF wf ne True]
      have step: "del_except_methods_loop (x # xs) tree = del_except_methods_loop xs ?t1"
        using px s(1) by simp
      note IH = Cons.IH [OF s(2) s(3) dx]
      have other: "get_mth_name_parts x' = Inr (m', c', t') \<Longrightarrow> x' \<in> set xs \<Longrightarrow>
          (m', c', t') \<noteq> (m, c, t)" for x' m' c' t'
        using get_mth_name_parts_inj [of x' "(m, c, t)" x] px nx by auto
      have hc: "(\<forall>x'\<in>set xs. \<exists>m' c' t'. get_mth_name_parts x' = Inr (m', c', t') \<and>
                    has_method ?t1 m' c' t')
         \<longleftrightarrow> (\<forall>x'\<in>set xs. \<exists>m' c' t'. get_mth_name_parts x' = Inr (m', c', t') \<and>
                    has_method tree m' c' t')"
        unfolding s(4) using other by blast
      have D: "{p. \<exists>x'\<in>set (x # xs). get_mth_name_parts x' = Inr p} =
               {p. \<exists>x'\<in>set xs. get_mth_name_parts x' = Inr p} \<union> {(m, c, t)}"
        using px by auto
      have 1: "fst (del_except_methods_loop (x # xs) tree) = Inr () \<longleftrightarrow>
           (\<forall>x'\<in>set (x # xs). \<exists>m' c' t'. get_mth_name_parts x' = Inr (m', c', t') \<and>
               has_method tree m' c' t')"
        unfolding step using IH hc px True by simp
      have 2: "fst (del_except_methods_loop (x # xs) tree) = Inr () \<longrightarrow>
           snd (del_except_methods_loop (x # xs) tree) =
             remove_methods {p. \<exists>x'\<in>set (x # xs). get_mth_name_parts x' = Inr p} tree"
        unfolding step D using IH by (simp add: remove_methods_twice)
      from 1 2 show ?thesis by blast
    qed
  qed
qed

lemma enumeratesD:
  "enumerates set_iter \<Longrightarrow> distinct (set_iter xs)"
  "enumerates set_iter \<Longrightarrow> set (set_iter xs) = set xs"
  by (simp_all add: enumerates_def)

lemma enumerates_remdups: "enumerates remdups"
  by (simp add: enumerates_def)

lemma enumerates_rev_remdups: "enumerates (\<lambda>xs. rev (remdups xs))"
  by (simp add: enumerates_def)

lemma del_except_classes_same_set:
  assumes wf: "wf_tree tree" and ne: "no_empty_branch tree" and eq: "set xs = set ys"
    and en: "enumerates set_iter" and en': "enumerates set_iter'"
    and ok: "fst (del_except_classes_in_name_tree set_iter tree xs) = Inr ()"
  shows "del_except_classes_in_name_tree set_iter' tree ys =
         del_except_classes_in_name_tree set_iter tree xs"
proof -
  note cx = del_except_classes_loop_char [OF wf ne enumeratesD(1) [OF en], of xs]
  note cy = del_except_classes_loop_char [OF wf ne enumeratesD(1) [OF en'], of ys]
  have sx: "set (set_iter xs) = set xs" using en by (rule enumeratesD(2))
  have sy: "set (set_iter' ys) = set xs" using enumeratesD(2) [OF en', of ys] eq by simp
  have okx: "fst (del_except_classes_loop (set_iter xs) tree) = Inr ()"
    using ok by (simp add: del_except_classes_in_name_tree_def)
  then have oky: "fst (del_except_classes_loop (set_iter' ys) tree) = Inr ()"
    using cx cy sx sy by simp
  have "snd (del_except_classes_loop (set_iter' ys) tree) =
        snd (del_except_classes_loop (set_iter xs) tree)"
    using cx cy okx oky sx sy by simp
  with okx oky show ?thesis
    by (simp add: del_except_classes_in_name_tree_def prod_eq_iff)
qed

lemma del_except_methods_same_set:
  assumes wf: "wf_tree tree" and ne: "no_empty_branch tree" and eq: "set xs = set ys"
    and en: "enumerates set_iter" and en': "enumerates set_iter'"
    and ok: "fst (del_except_methods_in_name_tree set_iter tree xs) = Inr ()"
  shows "del_except_methods_in_name_tree set_iter' tree ys =
         del_except_methods_in_name_tree set_iter tree xs"
proof -
  note cx = del_except_methods_loop_char [OF wf ne enumeratesD(1) [OF en], of xs]
  note cy = del_except_methods_loop_char [OF wf ne enumeratesD(1) [OF en'], of ys]
  have sx: "set (set_iter xs) = set xs" using en by (rule enumeratesD(2))
  have sy: "set (set_iter' ys) = set xs" using enumeratesD(2) [OF en', of ys] eq by simp
  have okx: "fst (del_except_methods_loop (set_iter xs) tree) = Inr ()"
    using ok by (simp add: del_except_methods_in_name_tree_def)
  then have oky: "fst (del_except_methods_loop (set_iter' ys) tree) = Inr ()"
    using cx cy sx sy by simp
  have "snd (del_except_methods_loop (set_iter' ys) tree) =
        snd (del_except_methods_loop (set_iter xs) tree)"
    using cx cy okx oky sx sy by simp
  with okx oky show ?thesis
    by (simp add: del_except_methods_in_name_tree_def prod_eq_iff)
qed

text \<open>
  C10: \<open>_del_except_classes_in_name_tree\<close> and \<open>_del_except_methods_in_name_tree\<close> run
  over \<open>set(names)\<close>, in whatever order the program iterates the set. On a well-formed
  tree without empty branches: the exclusions succeed exactly when every identifier of the
  list parses and names a class (a method) of the tree, however often it is listed and in
  whatever order the set is iterated; and when a list succeeds, every list with the same
  elements, in any order, with any repetitions and under any iteration order, succeeds
  with the same tree. So an identifier listed more than once is applied once, and its
  repetition raises nothing. (When a list fails, which error is raised and what has been
  deleted by then depend on the iteration order.)
\<close>

theorem exclusions_depend_on_set_only:
  assumes "wf_tree tree" and "no_empty_branch tree" and "set xs = set ys"
    and "enumerates set_iter" and "enumerates set_iter'"
  shows
    "(fst (del_except_classes_in_name_tree set_iter tree xs) = Inr () \<longleftrightarrow>
        (\<forall>x\<in>set xs. \<exists>m c. get_cls_name_parts x = Inr (m, c) \<and> has_class tree m c)) \<and>
     (fst (del_except_classes_in_name_tree set_iter tree xs) = Inr () \<longrightarrow>
        del_except_classes_in_name_tree set_iter' tree ys =
          del_except_classes_in_name_tree set_iter tree xs) \<and>
     (fst (del_except_methods_in_name_tree set_iter tree xs) = Inr () \<longleftrightarrow>
        (\<forall>x\<in>set xs. \<exists>m c t. get_mth_name_parts x = Inr (m, c, t) \<and> has_method tree m c t)) \<and>
     (fst (del_except_methods_in_name_tree set_iter tree xs) = Inr () \<longrightarrow>
        del_except_methods_in_name_tree set_iter' tree ys =
          del_except_methods_in_name_tree set_iter tree xs)"
proof -
  have sx: "set (set_iter xs) = set xs" using assms(4) by (rule enumeratesD(2))
  have 2: "fst (del_except_classes_in_name_tree set_iter tree xs) = Inr () \<longleftrightarrow>
        (\<forall>x\<in>set xs. \<exists>m c. get_cls_name_parts x = Inr (m, c) \<and> has_class tree m c)"
    using del_except_classes_loop_char [OF assms(1,2) enumeratesD(1) [OF assms(4)], of xs]
    by (simp add: del_except_classes_in_name_tree_def sx)
  have 3: "fst (del_except_classes_in_name_tree set_iter tree xs) = Inr () \<longrightarrow>
        del_except_classes_in_name_tree set_iter' tree ys =
          del_except_classes_in_name_tree set_iter tree xs"
    using del_except_classes_same_set [OF assms] by blast
  have 5: "fst (del_except_methods_in_name_tree set_iter tree xs) = Inr () \<longleftrightarrow>
        (\<forall>x\<in>set xs. \<exists>m c t. get_mth_name_parts x = Inr (m, c, t) \<and> has_method tree m c t)"
    using del_except_methods_loop_char [OF assms(1,2) enumeratesD(1) [OF assms(4)], of xs]
    by (simp add: del_except_methods_in_name_tree_def sx)
  have 6: "fst (del_except_methods_in_name_tree set_iter tree xs) = Inr () \<longrightarrow>
        del_except_methods_in_name_tree set_iter' tree ys =
          del_except_methods_in_name_tree set_iter tree xs"
    using del_except_methods_same_set [OF assms] by blast
  from 2 3 5 6 show ?thesis by blast
qed

theorem exclusions_depend_on_set_only_witness:
  "wf_tree example_tree \<and> no_empty_branch example_tree \<and>
   enumerates remdups \<and> enumerates (\<lambda>xs. rev (remdups xs)) \<and>
   del_except_classes_in_name_tree remdups example_tree [''m.D''] =
     (Inr (), [(''m'', [(''C'', [''test_a'', ''test_b''])])]) \<and>
   del_except_classes_in_name_tree (\<lambda>xs. rev (remdups xs)) example_tree [''m.D'', ''m.D''] =
     (Inr (), [(''m'', [(''C'', [''test_a'', ''test_b''])])]) \<and>
   del_except_classes_loop [''m.D'', ''m.D''] example_tree =
     (Inl (ValueError (NotFoundIn ''m.D'' ''D'' ''m'')),
      [(''m'', [(''C'', [''test_a'', ''test_b''])])]) \<and>
   del_except_methods_in_name_tree remdups example_tree [''m.C.test_a'', ''m.D.test_c''] =
     (Inr (), [(''m'', [(''C'', [''test_b''])])]) \<and>
   del_except_methods_in_name_tree (\<lambda>xs. rev (remdups xs)) example_tree
       [''m.D.test_c'', ''m.C.test_a'', ''m.D.test_c'', ''m.C.test_a''] =
     (Inr (), [(''m'', [(''C'', [''test_b''])])])"
proof -
  have wf: "wf_tree example_tree"
    by (simp add: wf_tree_def wf_classes_def)
  have ne: "no_empty_branch example_tree"
    by (simp add: no_empty_branch_def)
  note e1 = enumerates_remdups and e2 = enumerates_rev_remdups
  have s1: "set [''m.D''] = set [''m.D'', ''m.D'']" by simp
  have s2: "set [''m.C.test_a'', ''m.D.test_c''] =
      set [''m.D.test_c'', ''m.C.test_a'', ''m.D.test_c'', ''m.C.test_a'']" by auto
  have c1: "del_except_classes_in_name_tree remdups example_tree [''m.D''] =
     (Inr (), [(''m'', [(''C'', [''test_a'', ''test_b''])])])"
    by (simp add: del_except_classes_in_name_tree_def get_cls_name_parts_def
        del_cls_in_name_tree_def)
  have m1: "del_except_methods_in_name_tree remdups example_tree
      [''m.C.test_a'', ''m.D.test_c''] = (Inr (), [(''m'', [(''C'', [''test_b''])])])"
    by (simp add: del_except_methods_in_name_tree_def get_mth_name_parts_def
        del_mth_in_name_tree_def)
  have c2: "del_except_classes_in_name_tree (\<lambda>xs. rev (remdups xs)) example_tree
      [''m.D'', ''m.D''] = (Inr (), [(''m'', [(''C'', [''test_a'', ''test_b''])])])"
    using exclusions_depend_on_set_only [OF wf ne s1 e1 e2] c1 by simp
  have m2: "del_except_methods_in_name_tree (\<lambda>xs. rev (remdups xs)) example_tree
       [''m.D.test_c'', ''m.C.test_a'', ''m.D.test_c'', ''m.C.test_a''] =
     (Inr (), [(''m'', [(''C'', [''test_b''])])])"
    using exclusions_depend_on_set_only [OF wf ne s2 e1 e2] m1 by simp
  have l: "del_except_classes_loop [''m.D'', ''m.D''] example_tree =
     (Inl (ValueError (NotFoundIn ''m.D'' ''D'' ''m'')),
      [(''m'', [(''C'', [''test_a'', ''test_b''])])])"
    by (simp add: get_cls_name_parts_def del_cls_in_name_tree_def)
  from wf ne e1 e2 c1 c2 l m1 m2 show ?thesis by blast
qed

section \<open>C5: what a full name is loaded as\<close>



lemma import_prefix_none:
  "parts \<noteq> [] \<Longrightarrow> butlast parts = [] \<Longrightarrow>
   import_module rt (join_dot parts) = Inl (ImportError s) \<Longrightarrow>
   import_prefix rt parts = Inl (ImportError s)"
  by (subst import_prefix.simps) simp









end
